theory Spec2Isabelle
  imports Complex_Main
begin

section \<open>The budget planner of trip-mentor (BudgetPlanner.tsx)\<close>

text \<open>
  The component keeps four state variables (\<open>totalBudget\<close>, \<open>duration\<close>,
  \<open>currency\<close>, \<open>categories\<close>) in React \<open>useState\<close> cells. An event handler is a
  closure of one render: every read of a state variable inside it yields the value of
  that render, and every call of a setter only records the value of the next render; when
  a setter is called twice, the later value is the one the next render sees.

  The category objects are JavaScript objects: \<open>categories.map\<close> returns the very same
  object where the callback returns its argument, and a new object where the callback
  builds one with a spread. Line 147 mutates one object in place, so the model keeps an
  explicit store of objects and arrays of addresses into it.

  Numbers: every value that reaches a state variable is the result of \<open>parseInt\<close> or
  of \<open>Math.round\<close> on a finite number, so the fields are integers, taken to be of a size
  that a double holds exactly. \<open>Math.round((percentage / 100) * budget)\<close> of line 72 and
  \<open>Math.round((newAmount / totalBudget) * 100)\<close> of line 162 round a double that is
  itself the result of two rounded operations, and already for small inputs this is not
  the rounding of the exact value (35 percent of 90 is 31, not 32); the model rounds the
  quotient and the product to the nearest double as the code does, and so it does with the
  quotient, the product and the sum of lines 130 and 131. The quotients of lines 172, 213
  to 217 and 595 are taken in exact rational arithmetic.
  Where the source can divide by zero the model uses the type \<open>jsnum\<close> with
  \<open>NaN\<close> and the two infinities.
\<close>

subsection \<open>Data\<close>

record BudgetCategory =
  id_c :: string
  name :: string
  amount :: int
  percentage :: int

datatype CurrencyCode = USD | INR

type_synonym addr = nat
type_synonym store = "BudgetCategory list"

record planner =
  totalBudget :: int
  duration :: int
  currency :: CurrencyCode
  categories :: "addr list"

type_synonym world = "store \<times> planner"

text \<open>The objects of the array \<open>categories\<close>, read through the store.\<close>

definition deref :: "store \<Rightarrow> addr list \<Rightarrow> BudgetCategory list" where
  "deref st arr = map (\<lambda>a. st ! a) arr"

definition view :: "world \<Rightarrow> BudgetCategory list" where
  "view w = deref (fst w) (categories (snd w))"

definition percentages :: "world \<Rightarrow> int list" where
  "percentages w = map percentage (view w)"

text \<open>Lines 39 to 50: the initial state.\<close>

definition seed_store :: store where
  "seed_store =
    [\<lparr>id_c = ''1'', name = ''Accommodation'', amount = 0, percentage = 35\<rparr>,
     \<lparr>id_c = ''2'', name = ''Food & Drinks'', amount = 0, percentage = 25\<rparr>,
     \<lparr>id_c = ''3'', name = ''Transportation'', amount = 0, percentage = 15\<rparr>,
     \<lparr>id_c = ''4'', name = ''Activities'', amount = 0, percentage = 15\<rparr>,
     \<lparr>id_c = ''5'', name = ''Shopping'', amount = 0, percentage = 5\<rparr>,
     \<lparr>id_c = ''6'', name = ''Miscellaneous'', amount = 0, percentage = 5\<rparr>]"

definition seed :: world where
  "seed = (seed_store,
           \<lparr>totalBudget = 0, duration = 7, currency = USD, categories = [0, 1, 2, 3, 4, 5]\<rparr>)"

subsection \<open>JavaScript primitives\<close>

text \<open>\<open>Math.round\<close>: the nearest integer, a tie going up.\<close>

definition js_round :: "rat \<Rightarrow> int" where
  "js_round x = \<lfloor>x + 1 / 2\<rfloor>"

text \<open>
  The nearest double of a rational number: 53 significant binary digits, a tie going to
  the even significand (the exponent range of a double is not exceeded by quotients and
  products of integers that a double holds exactly). \<open>bits n\<close> is the number of binary
  digits of \<open>n\<close>, and \<open>exponent q\<close> the integer \<open>k\<close> with
  \<open>2 ^ k \<le> q < 2 ^ (k + 1)\<close> for a positive \<open>q\<close>.
\<close>

function bits :: "int \<Rightarrow> int" where
  "bits n = (if n \<le> 0 then 0 else 1 + bits (n div 2))"
  by auto
termination
  by (relation "measure nat") auto

declare bits.simps [simp del]

definition exponent :: "rat \<Rightarrow> int" where
  "exponent q = (if 1 \<le> q then bits \<lfloor>q\<rfloor> - 1 else - bits (\<lceil>1 / q\<rceil> - 1))"

definition round_half_even :: "rat \<Rightarrow> int" where
  "round_half_even y =
     (let n = \<lfloor>y\<rfloor>; f = y - of_int n
      in if f < 1 / 2 then n else if 1 / 2 < f then n + 1
         else if even n then n else n + 1)"

definition to_double :: "rat \<Rightarrow> rat" where
  "to_double x =
     (if x = 0 then 0
      else let e = exponent \<bar>x\<bar> - 52
           in if 0 \<le> e
              then sgn x * of_int (round_half_even (\<bar>x\<bar> / 2 ^ nat e)) * 2 ^ nat e
              else sgn x * of_int (round_half_even (\<bar>x\<bar> * 2 ^ nat (- e))) / 2 ^ nat (- e))"

text \<open>
  \<open>Array.prototype.map\<close> over an array of objects. The callback answers \<open>None\<close>
  where the source returns the object it was given, and \<open>Some c\<close> where it returns a
  newly built object \<open>c\<close>, which is then allocated at the end of the store.
\<close>

fun js_map :: "(BudgetCategory \<Rightarrow> BudgetCategory option) \<Rightarrow> addr list \<Rightarrow> store
    \<Rightarrow> addr list \<times> store" where
  "js_map f [] st = ([], st)"
| "js_map f (a # as) st =
    (case f (st ! a) of
       None \<Rightarrow> (case js_map f as st of (bs, st') \<Rightarrow> (a # bs, st'))
     | Some c \<Rightarrow> (case js_map f as (st @ [c]) of (bs, st') \<Rightarrow> (length st # bs, st')))"

text \<open>\<open>reduce((sum, cat) => sum + cat.percentage, 0)\<close>.\<close>

definition sum_percentage :: "store \<Rightarrow> addr list \<Rightarrow> int" where
  "sum_percentage st arr = sum_list (map (\<lambda>a. percentage (st ! a)) arr)"

subsection \<open>updateCategoryAmounts and handleBudgetChange (lines 68 to 87)\<close>

text \<open>Line 72: \<open>Math.round((category.percentage / 100) * budget)\<close>.\<close>

definition amountOf :: "int \<Rightarrow> int \<Rightarrow> int" where
  "amountOf pct budget =
     js_round (to_double (to_double (of_int pct / 100) * of_int budget))"

text \<open>
  \<open>updateCategoryAmounts\<close> maps the array \<open>categories\<close> of the render it was created
  in (the planner \<open>s\<close>) and hands the result to \<open>setCategories\<close>, that is, to the
  pending planner \<open>nxt\<close>.
\<close>

definition updateCategoryAmounts :: "planner \<Rightarrow> int \<Rightarrow> store \<times> planner \<Rightarrow> store \<times> planner" where
  "updateCategoryAmounts s budget = (\<lambda>(st, nxt).
     case js_map (\<lambda>category. Some (category\<lparr>amount := amountOf (percentage category) budget\<rparr>))
            (categories s) st of
       (updatedCategories, st') \<Rightarrow> (st', nxt\<lparr>categories := updatedCategories\<rparr>))"

text \<open>
  \<open>handleBudgetChange\<close>: the argument is the result of \<open>parseInt(e.target.value)\<close>,
  \<open>None\<close> for \<open>NaN\<close>; \<open>|| 0\<close> replaces \<open>NaN\<close> (and 0) by 0.
\<close>

definition handleBudgetChange :: "int option \<Rightarrow> world \<Rightarrow> world" where
  "handleBudgetChange parsed = (\<lambda>(st, s).
     let value = (case parsed of None \<Rightarrow> 0 | Some n \<Rightarrow> n)
     in updateCategoryAmounts s value (st, s\<lparr>totalBudget := value\<rparr>))"

text \<open>\<open>handleCurrencyChange\<close> and \<open>handleDurationChange\<close> (lines 90 to 98).\<close>

definition handleCurrencyChange :: "CurrencyCode \<Rightarrow> world \<Rightarrow> world" where
  "handleCurrencyChange c = (\<lambda>(st, s). (st, s\<lparr>currency := c\<rparr>))"

definition handleDurationChange :: "int option \<Rightarrow> world \<Rightarrow> world" where
  "handleDurationChange parsed = (\<lambda>(st, s).
     let value = (case parsed of None \<Rightarrow> 1 | Some n \<Rightarrow> if n = 0 then 1 else n)
     in (st, s\<lparr>duration := value\<rparr>))"

subsection \<open>handlePercentageChange (lines 101 to 154)\<close>

text \<open>Lines 103 to 107: the new percentage goes into a copy of the edited category.\<close>

definition assignPercentage :: "string \<Rightarrow> int \<Rightarrow> addr list \<Rightarrow> store \<Rightarrow> addr list \<times> store" where
  "assignPercentage i newPercentage arr st =
     js_map (\<lambda>category. if id_c category = i
                         then Some (category\<lparr>percentage := newPercentage\<rparr>) else None) arr st"

text \<open>
  Lines 110 to 139: the proportional adjustment of the other categories; \<open>adjustOne\<close>
  is the callback of lines 123 to 137, and \<open>adjusted\<close> is
  \<open>Math.max(0, Math.round(category.percentage + (adjustment * adjustmentRatio)))\<close>
  with \<open>adjustmentRatio = category.percentage / otherCategoriesTotal\<close>.
\<close>

definition adjusted :: "int \<Rightarrow> int \<Rightarrow> int \<Rightarrow> int" where
  "adjusted adjustment otherCategoriesTotal pct =
     (let adjustmentRatio = to_double (of_int pct / of_int otherCategoriesTotal)
      in max 0 (js_round (to_double (of_int pct
                   + to_double (of_int adjustment * adjustmentRatio)))))"

definition adjustOne :: "string \<Rightarrow> int \<Rightarrow> int \<Rightarrow> BudgetCategory \<Rightarrow> BudgetCategory option" where
  "adjustOne i adjustment otherCategoriesTotal category =
     (if id_c category = i then None
      else if otherCategoriesTotal = 0 then None
      else Some (category\<lparr>percentage :=
              adjusted adjustment otherCategoriesTotal (percentage category)\<rparr>))"

definition adjustOthers :: "string \<Rightarrow> addr list \<Rightarrow> store \<Rightarrow> addr list \<times> store" where
  "adjustOthers i updatedCategories st =
     (let totalPercentage = sum_percentage st updatedCategories
      in if totalPercentage \<noteq> 100 then
           let adjustment = 100 - totalPercentage;
               categoriesToAdjust = filter (\<lambda>a. id_c (st ! a) \<noteq> i) updatedCategories
           in if length categoriesToAdjust > 0 then
                let otherCategoriesTotal = sum_percentage st categoriesToAdjust
                in js_map (adjustOne i adjustment otherCategoriesTotal) updatedCategories st
              else (updatedCategories, st)
         else (updatedCategories, st))"

text \<open>
  Lines 142 to 149: the residual goes to the first category that is not the edited one,
  or to the first category at all; the object is changed in place.
\<close>

definition adjustmentCategory :: "string \<Rightarrow> addr list \<Rightarrow> store \<Rightarrow> addr option" where
  "adjustmentCategory i updatedCategories st =
     (case find (\<lambda>a. id_c (st ! a) \<noteq> i) updatedCategories of
        Some a \<Rightarrow> Some a
      | None \<Rightarrow> (case updatedCategories of [] \<Rightarrow> None | a # _ \<Rightarrow> Some a))"

definition residualCorrection :: "string \<Rightarrow> addr list \<Rightarrow> store \<Rightarrow> store" where
  "residualCorrection i updatedCategories st =
     (let finalTotal = sum_percentage st updatedCategories
      in if finalTotal \<noteq> 100 then
           (case adjustmentCategory i updatedCategories st of
              None \<Rightarrow> st
            | Some a \<Rightarrow>
                st[a := (st ! a)\<lparr>percentage := percentage (st ! a) + (100 - finalTotal)\<rparr>])
         else st)"

text \<open>Lines 103 to 149: the array that line 151 hands to \<open>setCategories\<close>.\<close>

definition rebalance :: "string \<Rightarrow> int \<Rightarrow> addr list \<Rightarrow> store \<Rightarrow> addr list \<times> store" where
  "rebalance i newPercentage arr st =
     (case assignPercentage i newPercentage arr st of
        (updated1, st1) \<Rightarrow>
          (case adjustOthers i updated1 st1 of
             (updated2, st2) \<Rightarrow> (updated2, residualCorrection i updated2 st2)))"

text \<open>
  The whole handler. Line 151 sets the rebalanced array; line 153 then calls
  \<open>updateCategoryAmounts(totalBudget)\<close>, which maps the array \<open>categories\<close> of the
  current render and sets the outcome, so that is the array of the next render.
\<close>

definition handlePercentageChange :: "string \<Rightarrow> int \<Rightarrow> world \<Rightarrow> world" where
  "handlePercentageChange i newPercentage = (\<lambda>(st, s).
     case rebalance i newPercentage (categories s) st of
       (updatedCategories, st') \<Rightarrow>
         updateCategoryAmounts s (totalBudget s) (st', s\<lparr>categories := updatedCategories\<rparr>))"

text \<open>The array of line 151, as objects.\<close>

definition rebalanced :: "string \<Rightarrow> int \<Rightarrow> world \<Rightarrow> BudgetCategory list" where
  "rebalanced i newPercentage w =
     (case rebalance i newPercentage (categories (snd w)) (fst w) of
        (updatedCategories, st') \<Rightarrow> deref st' updatedCategories)"

subsection \<open>handleAmountChange (lines 157 to 166)\<close>

text \<open>Line 162: \<open>Math.round((newAmount / totalBudget) * 100)\<close>.\<close>

definition percentageOf :: "int \<Rightarrow> int \<Rightarrow> int" where
  "percentageOf newAmount budget =
     js_round (to_double (to_double (of_int newAmount / of_int budget) * 100))"

definition handleAmountChange :: "string \<Rightarrow> int \<Rightarrow> world \<Rightarrow> world" where
  "handleAmountChange i newAmount = (\<lambda>(st, s).
     if totalBudget s \<le> 0 then (st, s)
     else let newPercentage = percentageOf newAmount (totalBudget s)
          in handlePercentageChange i newPercentage (st, s))"

subsection \<open>Sequences of user events\<close>

datatype event =
    SetTotalBudget "int option"
  | SetCategoryPercentage string int
  | SetCategoryAmount string int
  | SetDuration "int option"
  | SetCurrency CurrencyCode

fun dispatch :: "event \<Rightarrow> world \<Rightarrow> world" where
  "dispatch (SetTotalBudget parsed) w = handleBudgetChange parsed w"
| "dispatch (SetCategoryPercentage i p) w = handlePercentageChange i p w"
| "dispatch (SetCategoryAmount i a) w = handleAmountChange i a w"
| "dispatch (SetDuration parsed) w = handleDurationChange parsed w"
| "dispatch (SetCurrency c) w = handleCurrencyChange c w"

definition run :: "event list \<Rightarrow> world \<Rightarrow> world" where
  "run evs w = foldl (\<lambda>w e. dispatch e w) w evs"

subsection \<open>Per-day figures and budget levels (lines 169 to 201 and 592 to 603)\<close>

text \<open>
  A JavaScript number where the source may divide by zero: \<open>x / 0\<close> is an infinity
  with the sign of \<open>x\<close>, and \<open>0 / 0\<close> is \<open>NaN\<close>; every comparison with \<open>NaN\<close>
  is false.
\<close>

datatype jsnum = NaN | PosInf | NegInf | Fin rat

definition js_div :: "rat \<Rightarrow> rat \<Rightarrow> jsnum" where
  "js_div a b =
     (if b = 0 then (if 0 < a then PosInf else if a < 0 then NegInf else NaN)
      else Fin (a / b))"

fun js_div_by :: "jsnum \<Rightarrow> rat \<Rightarrow> jsnum" where
  "js_div_by (Fin a) b = js_div a b"
| "js_div_by PosInf b = (if 0 \<le> b then PosInf else NegInf)"
| "js_div_by NegInf b = (if 0 \<le> b then NegInf else PosInf)"
| "js_div_by NaN b = NaN"

fun js_round_num :: "jsnum \<Rightarrow> jsnum" where
  "js_round_num (Fin a) = Fin (of_int (js_round a))"
| "js_round_num x = x"

fun js_less :: "jsnum \<Rightarrow> rat \<Rightarrow> bool" where
  "js_less (Fin a) b = (a < b)"
| "js_less NegInf b = True"
| "js_less PosInf b = False"
| "js_less NaN b = False"

fun js_greater :: "jsnum \<Rightarrow> rat \<Rightarrow> bool" where
  "js_greater (Fin a) b = (b < a)"
| "js_greater PosInf b = True"
| "js_greater NegInf b = False"
| "js_greater NaN b = False"

text \<open>Lines 59 to 62: \<open>exchangeRates.INR\<close>.\<close>

definition exchangeRates_INR :: rat where
  "exchangeRates_INR = 8314 / 100"

text \<open>
  Lines 592 to 596: the block that shows the per-day figure of a category, guarded by
  \<open>duration > 0\<close>; \<open>None\<close> stands for nothing being rendered.
\<close>

definition perDay :: "planner \<Rightarrow> BudgetCategory \<Rightarrow> int option" where
  "perDay s category =
     (if duration s > 0
      then Some (js_round (of_int (amount category) / of_int (duration s)))
      else None)"

text \<open>
  The block sits inside the budget breakdown of lines 527 to 607, which is rendered under
  the guard \<open>totalBudget > 0\<close>.
\<close>

definition breakdownPerDay :: "planner \<Rightarrow> BudgetCategory \<Rightarrow> int option" where
  "breakdownPerDay s category = (if totalBudget s > 0 then perDay s category else None)"

record thresholds =
  low :: rat
  high :: rat

record indicator =
  level :: string
  color :: string
  text_c :: string

definition thresholdsOf :: "string \<Rightarrow> thresholds" where
  "thresholdsOf category =
     (if category = ''Accommodation'' then \<lparr>low = 50, high = 150\<rparr>
      else if category = ''Food & Drinks'' then \<lparr>low = 30, high = 100\<rparr>
      else if category = ''Transportation'' then \<lparr>low = 10, high = 50\<rparr>
      else if category = ''Activities'' then \<lparr>low = 20, high = 80\<rparr>
      else \<lparr>low = 15, high = 50\<rparr>)"

definition dailyAmount :: "planner \<Rightarrow> int \<Rightarrow> jsnum" where
  "dailyAmount s amt =
     (let amountUSD = (if currency s = INR then of_int amt / exchangeRates_INR else of_int amt)
      in js_div amountUSD (of_int (duration s)))"

definition getBudgetLevelIndicator :: "planner \<Rightarrow> int \<Rightarrow> string \<Rightarrow> indicator" where
  "getBudgetLevelIndicator s amt category =
     (let d = dailyAmount s amt; t = thresholdsOf category
      in if js_less d (low t)
         then \<lparr>level = ''low'', color = ''text-yellow-600'', text_c = ''Budget''\<rparr>
         else if js_greater d (high t)
         then \<lparr>level = ''high'', color = ''text-green-600'', text_c = ''Luxury''\<rparr>
         else \<lparr>level = ''medium'', color = ''text-blue-600'', text_c = ''Standard''\<rparr>)"

subsection \<open>The affordable price level (lines 210 to 242 and 257 to 318)\<close>

text \<open>
  \<open>fetchSuggestedPlaces\<close> and \<open>generateFallbackPlaces\<close> compute the level with the
  same expressions. \<open>find(...)?.amount || 0\<close> is 0 when no category is named
  Activities.
\<close>

definition affordablePriceLevel :: "world \<Rightarrow> int" where
  "affordablePriceLevel w =
     (let s = snd w;
          activitiesBudget =
            (case find (\<lambda>c. name c = ''Activities'') (view w) of
               None \<Rightarrow> 0 | Some c \<Rightarrow> amount c);
          dailyActivitiesBudget =
            js_round_num (js_div (of_int activitiesBudget) (of_int (duration s)));
          dailyActivitiesBudgetUSD =
            (if currency s = INR
             then js_round_num (js_div_by dailyActivitiesBudget exchangeRates_INR)
             else dailyActivitiesBudget)
      in if js_less dailyActivitiesBudgetUSD 30 then 1
         else if js_less dailyActivitiesBudgetUSD 60 then 2 else 3)"

text \<open>
  The two filter callbacks read only the field \<open>price_level\<close> of a place, \<open>None\<close>
  for \<open>undefined\<close>. Lines 236 to 240 (places of the back end):
\<close>

definition fetchedPlaceKept :: "int \<Rightarrow> int option \<Rightarrow> bool" where
  "fetchedPlaceKept affordable price_level =
     (let priceLevel = (case price_level of None \<Rightarrow> 0 | Some l \<Rightarrow> l)
      in priceLevel \<le> affordable)"

text \<open>Lines 315 to 317 (the four sample places, whose price levels are 0, 1, 2 and 3):\<close>

definition samplePlaceKept :: "int \<Rightarrow> int option \<Rightarrow> bool" where
  "samplePlaceKept affordable price_level =
     (case price_level of None \<Rightarrow> False | Some l \<Rightarrow> l \<le> affordable)"

definition samplePriceLevels :: "int option list" where
  "samplePriceLevels = [Some 0, Some 1, Some 2, Some 3]"

subsection \<open>Auxiliary notions for the proofs\<close>

text \<open>Rounding to a double, for a quotient of two positive integers, in integers.\<close>

definition rhe_int :: "int \<Rightarrow> int \<Rightarrow> int" where
  "rhe_int N D =
     (let n = N div D; r = N mod D
      in if 2 * r < D then n else if D < 2 * r then n + 1
         else if even n then n else n + 1)"

definition exponent_int :: "int \<Rightarrow> int \<Rightarrow> int" where
  "exponent_int a b =
     (if b \<le> a then bits (a div b) - 1 else - bits (- ((- b) div a) - 1)) - 52"

text \<open>Every address of an array points into the store.\<close>

definition wf_arr :: "store \<Rightarrow> addr list \<Rightarrow> bool" where
  "wf_arr st arr = list_all (\<lambda>a. a < length st) arr"

text \<open>What a callback of \<open>js_map\<close> makes of one object.\<close>

definition applied :: "(BudgetCategory \<Rightarrow> BudgetCategory option) \<Rightarrow> BudgetCategory
    \<Rightarrow> BudgetCategory" where
  "applied f c = (case f c of None \<Rightarrow> c | Some c' \<Rightarrow> c')"

text \<open>The seeded categories with their amounts computed for a budget.\<close>

definition priced :: "int \<Rightarrow> BudgetCategory list" where
  "priced budget = map (\<lambda>c. c\<lparr>amount := amountOf (percentage c) budget\<rparr>) seed_store"

definition seeded :: "world \<Rightarrow> bool" where
  "seeded w = (wf_arr (fst w) (categories (snd w)) \<and> distinct (categories (snd w))
      \<and> view w = priced (totalBudget (snd w)) \<and> duration (snd w) \<noteq> 0)"

text \<open>
  Lines 110 to 149 on the list of objects, without the store: the proportional pass, and
  the residual correction, which changes the first object that satisfies \<open>Q\<close>.
\<close>

definition proportional_val :: "string \<Rightarrow> int \<Rightarrow> BudgetCategory list \<Rightarrow> BudgetCategory list" where
  "proportional_val i p vs =
     (let v1 = map (\<lambda>c. if id_c c = i then c\<lparr>percentage := p\<rparr> else c) vs;
          total = sum_list (map percentage v1);
          others = filter (\<lambda>c. id_c c \<noteq> i) v1
      in if total \<noteq> 100 \<and> others \<noteq> []
         then map (applied (adjustOne i (100 - total) (sum_list (map percentage others)))) v1
         else v1)"

fun bump_first :: "(BudgetCategory \<Rightarrow> bool) \<Rightarrow> int \<Rightarrow> BudgetCategory list
    \<Rightarrow> BudgetCategory list option" where
  "bump_first Q d [] = None"
| "bump_first Q d (c # cs) =
     (if Q c then Some (c\<lparr>percentage := percentage c + d\<rparr> # cs)
      else map_option ((#) c) (bump_first Q d cs))"

definition residual_val :: "string \<Rightarrow> BudgetCategory list \<Rightarrow> BudgetCategory list" where
  "residual_val i vs =
     (let final = sum_list (map percentage vs)
      in if final \<noteq> 100 then
           (case bump_first (\<lambda>c. id_c c \<noteq> i) (100 - final) vs of
              Some vs' \<Rightarrow> vs'
            | None \<Rightarrow>
                (case vs of [] \<Rightarrow> []
                 | c # cs \<Rightarrow> c\<lparr>percentage := percentage c + (100 - final)\<rparr> # cs))
         else vs)"

text \<open>The array after the proportional pass, before the residual correction.\<close>

definition proportional :: "string \<Rightarrow> int \<Rightarrow> world \<Rightarrow> BudgetCategory list" where
  "proportional i newPercentage w =
     (case assignPercentage i newPercentage (categories (snd w)) (fst w) of
        (updated1, st1) \<Rightarrow>
          (case adjustOthers i updated1 st1 of (updated2, st2) \<Rightarrow> deref st2 updated2))"

text \<open>The array after line 107, before any rebalancing.\<close>

definition assigned :: "string \<Rightarrow> int \<Rightarrow> world \<Rightarrow> BudgetCategory list" where
  "assigned i newPercentage w =
     (case assignPercentage i newPercentage (categories (snd w)) (fst w) of
        (updated1, st1) \<Rightarrow> deref st1 updated1)"

section \<open>Properties\<close>

subsection \<open>The store under \<open>js_map\<close>\<close>

lemma wf_arr_append: "wf_arr st arr \<Longrightarrow> wf_arr (st @ xs) arr"
  by (induction arr) (auto simp: wf_arr_def)

lemma js_map_grows: "js_map f arr st = (arr', st') \<Longrightarrow> \<exists>xs. st' = st @ xs"
proof (induction arr arbitrary: st arr' st')
  case Nil
  then show ?case by simp
next
  case (Cons a as)
  show ?case
  proof (cases "f (st ! a)")
    case None
    with Cons.prems obtain bs where "js_map f as st = (bs, st')"
      by (auto split: prod.splits)
    then show ?thesis using Cons.IH by blast
  next
    case (Some c)
    with Cons.prems obtain bs where "js_map f as (st @ [c]) = (bs, st')"
      by (auto split: prod.splits)
    then obtain xs where "st' = (st @ [c]) @ xs" using Cons.IH by blast
    then show ?thesis by auto
  qed
qed

lemma js_map_length: "js_map f arr st = (arr', st') \<Longrightarrow> length arr' = length arr"
  by (induction arr arbitrary: st arr' st') (auto split: option.splits prod.splits)

lemma js_map_wf:
  "wf_arr st arr \<Longrightarrow> js_map f arr st = (arr', st') \<Longrightarrow> wf_arr st' arr'"
proof (induction arr arbitrary: st arr' st')
  case Nil
  then show ?case by (simp add: wf_arr_def)
next
  case (Cons a as)
  from Cons.prems(1) have a: "a < length st" and as: "wf_arr st as"
    by (simp_all add: wf_arr_def)
  show ?case
  proof (cases "f (st ! a)")
    case None
    with Cons.prems obtain bs where bs: "js_map f as st = (bs, st')" and arr': "arr' = a # bs"
      by (auto split: prod.splits)
    from js_map_grows[OF bs] a have "a < length st'" by auto
    with Cons.IH[OF as bs] arr' show ?thesis by (simp add: wf_arr_def)
  next
    case (Some c)
    with Cons.prems obtain bs where bs: "js_map f as (st @ [c]) = (bs, st')"
      and arr': "arr' = length st # bs"
      by (auto split: prod.splits)
    from js_map_grows[OF bs] have "length st < length st'" by auto
    with Cons.IH[OF wf_arr_append[OF as] bs] arr' show ?thesis by (simp add: wf_arr_def)
  qed
qed

lemma js_map_deref:
  "wf_arr st arr \<Longrightarrow> js_map f arr st = (arr', st') \<Longrightarrow>
   deref st' arr' = map (applied f) (deref st arr)"
proof (induction arr arbitrary: st arr' st')
  case Nil
  then show ?case by (simp add: deref_def)
next
  case (Cons a as)
  from Cons.prems(1) have a: "a < length st" and as: "wf_arr st as"
    by (simp_all add: wf_arr_def)
  show ?case
  proof (cases "f (st ! a)")
    case None
    with Cons.prems obtain bs where bs: "js_map f as st = (bs, st')" and arr': "arr' = a # bs"
      by (auto split: prod.splits)
    from js_map_grows[OF bs] a have "st' ! a = st ! a" by (auto simp: nth_append)
    then have "deref st' arr' = st ! a # deref st' bs"
      using arr' by (simp add: deref_def)
    moreover have "map (applied f) (deref st (a # as)) = st ! a # map (applied f) (deref st as)"
      using None by (simp add: deref_def applied_def)
    ultimately show ?thesis using Cons.IH[OF as bs] by simp
  next
    case (Some c)
    with Cons.prems obtain bs where bs: "js_map f as (st @ [c]) = (bs, st')"
      and arr': "arr' = length st # bs"
      by (auto split: prod.splits)
    from js_map_grows[OF bs] have c: "st' ! length st = c" by (auto simp: nth_append)
    have same: "deref (st @ [c]) as = deref st as"
      using as by (induction as) (auto simp: deref_def wf_arr_def nth_append)
    have "deref st' bs = map (applied f) (deref st as)"
      using Cons.IH[OF wf_arr_append[OF as] bs] same by simp
    moreover have "deref st' arr' = c # deref st' bs"
      using arr' c by (simp add: deref_def)
    moreover have "map (applied f) (deref st (a # as)) = c # map (applied f) (deref st as)"
      using Some by (simp add: deref_def applied_def)
    ultimately show ?thesis by simp
  qed
qed

text \<open>An address of the result that was in the store before is an address of the
  argument, and the callback returned the object itself there.\<close>

lemma js_map_shared:
  "js_map f arr st = (arr', st') \<Longrightarrow> b \<in> set arr' \<Longrightarrow> b < length st \<Longrightarrow>
   b \<in> set arr \<and> f (st ! b) = None"
proof (induction arr arbitrary: st arr' st')
  case Nil
  then show ?case by simp
next
  case (Cons a as)
  show ?case
  proof (cases "f (st ! a)")
    case None
    with Cons.prems obtain bs where bs: "js_map f as st = (bs, st')" and arr': "arr' = a # bs"
      by (auto split: prod.splits)
    show ?thesis
    proof (cases "b = a")
      case True
      with None show ?thesis by simp
    next
      case False
      with Cons.prems(2) arr' have "b \<in> set bs" by simp
      from Cons.IH[OF bs this Cons.prems(3)] show ?thesis by simp
    qed
  next
    case (Some c)
    with Cons.prems obtain bs where bs: "js_map f as (st @ [c]) = (bs, st')"
      and arr': "arr' = length st # bs"
      by (auto split: prod.splits)
    from Cons.prems(2,3) arr' have "b \<in> set bs" by auto
    moreover from Cons.prems(3) have "b < length (st @ [c])" by simp
    ultimately have "b \<in> set as \<and> f ((st @ [c]) ! b) = None"
      using Cons.IH[OF bs] by blast
    with Cons.prems(3) show ?thesis by (simp add: nth_append)
  qed
qed

lemma js_map_distinct:
  "wf_arr st arr \<Longrightarrow> distinct arr \<Longrightarrow> js_map f arr st = (arr', st') \<Longrightarrow> distinct arr'"
proof (induction arr arbitrary: st arr' st')
  case Nil
  then show ?case by simp
next
  case (Cons a as)
  from Cons.prems(1) have a: "a < length st" and as: "wf_arr st as"
    by (simp_all add: wf_arr_def)
  from Cons.prems(2) have d: "distinct as" and na: "a \<notin> set as" by simp_all
  show ?case
  proof (cases "f (st ! a)")
    case None
    with Cons.prems obtain bs where bs: "js_map f as st = (bs, st')" and arr': "arr' = a # bs"
      by (auto split: prod.splits)
    have "a \<notin> set bs" using js_map_shared[OF bs _ a] na by blast
    with Cons.IH[OF as d bs] arr' show ?thesis by simp
  next
    case (Some c)
    with Cons.prems obtain bs where bs: "js_map f as (st @ [c]) = (bs, st')"
      and arr': "arr' = length st # bs"
      by (auto split: prod.splits)
    have "length st \<notin> set bs"
    proof
      assume "length st \<in> set bs"
      then have "length st \<in> set as"
        using js_map_shared[OF bs, of "length st"] by simp
      with as show False by (auto simp: wf_arr_def list_all_iff)
    qed
    with Cons.IH[OF wf_arr_append[OF as] d bs] arr' show ?thesis by simp
  qed
qed

subsection \<open>Rounding in integer arithmetic\<close>


subsection \<open>Evaluating the rounding to a double\<close>

lemma bits_numeral: "bits (numeral k) = 1 + bits (numeral k div 2)"
  by (subst bits.simps) simp

lemma bits_0: "bits 0 = 0"
  by (simp add: bits.simps)

lemma bits_1: "bits 1 = 1"
  by (simp add: bits.simps)

lemma round_half_even_frac:
  assumes "0 < D"
  shows "round_half_even (of_int N / of_int D) = rhe_int N D"
proof -
  have fl: "\<lfloor>(of_int N / of_int D :: rat)\<rfloor> = N div D"
    by (rule floor_divide_of_int_eq)
  have "N = D * (N div D) + N mod D" by simp
  then have "(of_int N :: rat) = of_int D * of_int (N div D) + of_int (N mod D)"
    by (metis of_int_add of_int_mult)
  then have fr: "(of_int N / of_int D :: rat) - of_int (N div D) = of_int (N mod D) / of_int D"
    using assms by (simp add: field_simps)
  have lt: "(of_int (N mod D) / of_int D :: rat) < 1 / 2 \<longleftrightarrow> 2 * (N mod D) < D"
  proof -
    have "(of_int (N mod D) / of_int D :: rat) < 1 / 2
          \<longleftrightarrow> (of_int (2 * (N mod D)) :: rat) < of_int D"
      using assms by (simp add: field_simps)
    then show ?thesis by (simp only: of_int_less_iff)
  qed
  have gt: "1 / 2 < (of_int (N mod D) / of_int D :: rat) \<longleftrightarrow> D < 2 * (N mod D)"
  proof -
    have "1 / 2 < (of_int (N mod D) / of_int D :: rat)
          \<longleftrightarrow> (of_int D :: rat) < of_int (2 * (N mod D))"
      using assms by (simp add: field_simps)
    then show ?thesis by (simp only: of_int_less_iff)
  qed
  show ?thesis
    unfolding round_half_even_def rhe_int_def Let_def fl fr lt gt ..
qed

lemma exponent_frac:
  assumes "0 < a" and "0 < b"
  shows "exponent (of_int a / of_int b)
         = (if b \<le> a then bits (a div b) - 1 else - bits (- ((- b) div a) - 1))"
proof -
  have c: "(1 \<le> (of_int a / of_int b :: rat)) \<longleftrightarrow> b \<le> a"
    using assms by (simp add: field_simps)
  have f: "\<lfloor>(of_int a / of_int b :: rat)\<rfloor> = a div b"
    by (rule floor_divide_of_int_eq)
  have "\<lceil>1 / (of_int a / of_int b :: rat)\<rceil> = \<lceil>(of_int b / of_int a :: rat)\<rceil>"
    by simp
  also have "\<dots> = - \<lfloor>(of_int (- b) / of_int a :: rat)\<rfloor>"
    by (simp add: ceiling_def)
  also have "\<dots> = - ((- b) div a)"
    by (simp only: floor_divide_of_int_eq)
  finally have g: "\<lceil>1 / (of_int a / of_int b :: rat)\<rceil> = - ((- b) div a)" .
  show ?thesis unfolding exponent_def c f g ..
qed

lemma to_double_frac:
  assumes "0 < a" and "0 < b"
  shows "to_double (of_int a / of_int b)
         = (let e = exponent_int a b
            in if 0 \<le> e then of_int (rhe_int a (b * 2 ^ nat e) * 2 ^ nat e)
               else of_int (rhe_int (a * 2 ^ nat (- e)) b) / of_int (2 ^ nat (- e)))"
proof -
  let ?x = "of_int a / of_int b :: rat"
  have pos: "0 < ?x" using assms by simp
  have nz: "?x \<noteq> 0" using assms by simp
  from pos have ab: "\<bar>?x\<bar> = ?x" by (rule abs_of_pos)
  from pos have sg: "sgn ?x = 1" by (rule sgn_pos)
  have e: "exponent ?x - 52 = exponent_int a b"
    by (simp add: exponent_frac[OF assms] exponent_int_def)
  have up: "\<And>n. round_half_even (?x / 2 ^ n) = rhe_int a (b * 2 ^ n)"
  proof -
    fix n :: nat
    have "?x / 2 ^ n = of_int a / of_int (b * 2 ^ n)" by simp
    moreover have "0 < b * 2 ^ n" using assms by simp
    ultimately show "round_half_even (?x / 2 ^ n) = rhe_int a (b * 2 ^ n)"
      by (simp only: round_half_even_frac)
  qed
  have down: "\<And>n. round_half_even (?x * 2 ^ n) = rhe_int (a * 2 ^ n) b"
  proof -
    fix n :: nat
    have "?x * 2 ^ n = of_int (a * 2 ^ n) / of_int b" by simp
    then show "round_half_even (?x * 2 ^ n) = rhe_int (a * 2 ^ n) b"
      using assms by (simp only: round_half_even_frac)
  qed
  show ?thesis
    unfolding to_double_def Let_def ab sg e up down using nz by simp
qed

lemma to_double_minus: "to_double (- x) = - to_double x"
  by (simp add: to_double_def Let_def)

lemma to_double_0: "to_double 0 = 0"
  by (simp add: to_double_def)

lemma to_double_numeral_frac:
  "to_double (numeral a / numeral b)
     = (let e = exponent_int (numeral a) (numeral b)
        in if 0 \<le> e then of_int (rhe_int (numeral a) (numeral b * 2 ^ nat e) * 2 ^ nat e)
           else of_int (rhe_int (numeral a * 2 ^ nat (- e)) (numeral b))
                / of_int (2 ^ nat (- e)))"
  using to_double_frac[of "numeral a" "numeral b"] by simp

lemma to_double_numeral:
  "to_double (numeral a)
     = (let e = exponent_int (numeral a) 1
        in if 0 \<le> e then of_int (rhe_int (numeral a) (2 ^ nat e) * 2 ^ nat e)
           else of_int (rhe_int (numeral a * 2 ^ nat (- e)) 1) / of_int (2 ^ nat (- e)))"
  using to_double_frac[of "numeral a" 1] by (simp add: Let_def)

lemma to_double_one_frac:
  "to_double (1 / numeral b)
     = (let e = exponent_int 1 (numeral b)
        in if 0 \<le> e then of_int (rhe_int 1 (numeral b * 2 ^ nat e) * 2 ^ nat e)
           else of_int (rhe_int (2 ^ nat (- e)) (numeral b)) / of_int (2 ^ nat (- e)))"
  using to_double_frac[of 1 "numeral b"] by (simp add: Let_def)

lemma to_double_1: "to_double 1 = 1"
  using to_double_frac[of 1 1]
  by (simp add: Let_def exponent_int_def rhe_int_def bits_1)

lemma floor_rat_numeral: "\<lfloor>numeral a / numeral b :: rat\<rfloor> = numeral a div numeral b"
  using floor_divide_of_int_eq[of "numeral a" "numeral b", where ?'a = rat] by simp

lemma floor_rat_neg_numeral:
  "\<lfloor>- (numeral a / numeral b) :: rat\<rfloor> = - numeral a div numeral b"
  using floor_divide_of_int_eq[of "- numeral a" "numeral b", where ?'a = rat] by simp

lemma floor_rat_one: "\<lfloor>1 / numeral b :: rat\<rfloor> = 1 div numeral b"
  using floor_divide_of_int_eq[of 1 "numeral b", where ?'a = rat] by simp

lemmas evaluate_double =
  amountOf_def percentageOf_def adjusted_def
  to_double_numeral_frac to_double_numeral to_double_one_frac to_double_1
  to_double_minus to_double_0 exponent_int_def rhe_int_def bits_numeral bits_0 bits_1
  Let_def js_round_def floor_rat_numeral floor_rat_neg_numeral floor_rat_one

lemma amountOf_zero: "amountOf pct 0 = 0"
  by (simp add: amountOf_def to_double_0 js_round_def floor_rat_one)

subsection \<open>What the setters leave alone\<close>

lemma updateCategoryAmounts_frame:
  "totalBudget (snd (updateCategoryAmounts s b (st, nxt))) = totalBudget nxt"
  "duration (snd (updateCategoryAmounts s b (st, nxt))) = duration nxt"
  "currency (snd (updateCategoryAmounts s b (st, nxt))) = currency nxt"
  by (simp_all add: updateCategoryAmounts_def split: prod.splits)

lemma handleBudgetChange_frame:
  "totalBudget (snd (handleBudgetChange parsed w)) = (case parsed of None \<Rightarrow> 0 | Some n \<Rightarrow> n)"
  "duration (snd (handleBudgetChange parsed w)) = duration (snd w)"
  "currency (snd (handleBudgetChange parsed w)) = currency (snd w)"
  by (cases w; simp add: handleBudgetChange_def Let_def updateCategoryAmounts_frame)+

lemma handlePercentageChange_frame:
  "totalBudget (snd (handlePercentageChange i p w)) = totalBudget (snd w)"
  "duration (snd (handlePercentageChange i p w)) = duration (snd w)"
  "currency (snd (handlePercentageChange i p w)) = currency (snd w)"
  by (cases w; simp add: handlePercentageChange_def updateCategoryAmounts_frame
        split: prod.splits)+

lemma breakdownPerDay_divisor:
  "breakdownPerDay s c = Some v \<Longrightarrow> 0 < totalBudget s \<and> 1 \<le> duration s"
  by (auto simp: breakdownPerDay_def perDay_def split: if_splits)


subsection \<open>The three passes of \<open>handlePercentageChange\<close>\<close>

lemma sum_percentage_deref: "sum_percentage st arr = sum_list (map percentage (deref st arr))"
  by (simp add: sum_percentage_def deref_def comp_def)

lemma filter_deref: "deref st (filter (\<lambda>a. P (st ! a)) arr) = filter P (deref st arr)"
  by (simp add: deref_def filter_map comp_def)

lemma assignPercentage_grows:
  "assignPercentage i p arr st = (u1, st1) \<Longrightarrow> \<exists>xs. st1 = st @ xs"
  unfolding assignPercentage_def by (rule js_map_grows)

lemma assignPercentage_wf:
  "wf_arr st arr \<Longrightarrow> assignPercentage i p arr st = (u1, st1) \<Longrightarrow> wf_arr st1 u1"
  unfolding assignPercentage_def by (rule js_map_wf)

lemma assignPercentage_distinct:
  "wf_arr st arr \<Longrightarrow> distinct arr \<Longrightarrow> assignPercentage i p arr st = (u1, st1) \<Longrightarrow> distinct u1"
  unfolding assignPercentage_def by (rule js_map_distinct)

lemma assignPercentage_length:
  "assignPercentage i p arr st = (u1, st1) \<Longrightarrow> length u1 = length arr"
  unfolding assignPercentage_def by (rule js_map_length)

lemma assignPercentage_deref:
  assumes "wf_arr st arr" and "assignPercentage i p arr st = (u1, st1)"
  shows "deref st1 u1 = map (\<lambda>c. if id_c c = i then c\<lparr>percentage := p\<rparr> else c) (deref st arr)"
proof -
  have "applied (\<lambda>category. if id_c category = i
                 then Some (category\<lparr>percentage := p\<rparr>) else None)
        = (\<lambda>c. if id_c c = i then c\<lparr>percentage := p\<rparr> else c)"
    by (rule ext) (simp add: applied_def)
  then show ?thesis
    using js_map_deref[OF assms(1) assms(2)[unfolded assignPercentage_def]] by simp
qed

text \<open>The proportional pass either leaves the array alone or is one \<open>js_map\<close>.\<close>

lemma adjustOthers_cases:
  assumes "adjustOthers i u st = (u', st')"
  obtains (same) "u' = u" and "st' = st"
      and "sum_percentage st u = 100 \<or> filter (\<lambda>a. id_c (st ! a) \<noteq> i) u = []"
    | (mapped) "sum_percentage st u \<noteq> 100"
      and "js_map (adjustOne i (100 - sum_percentage st u)
                 (sum_percentage st (filter (\<lambda>a. id_c (st ! a) \<noteq> i) u))) u st = (u', st')"
      and "filter (\<lambda>a. id_c (st ! a) \<noteq> i) u \<noteq> []"
proof (cases "sum_percentage st u = 100 \<or> filter (\<lambda>a. id_c (st ! a) \<noteq> i) u = []")
  case True
  then have "adjustOthers i u st = (u, st)"
    by (auto simp: adjustOthers_def Let_def)
  with assms have "u' = u" and "st' = st" by simp_all
  then show thesis using True by (rule same)
next
  case False
  then have "adjustOthers i u st =
      js_map (adjustOne i (100 - sum_percentage st u)
                 (sum_percentage st (filter (\<lambda>a. id_c (st ! a) \<noteq> i) u))) u st"
    by (simp add: adjustOthers_def Let_def)
  with assms False show thesis by (intro mapped) simp_all
qed

lemma adjustOthers_grows:
  assumes "adjustOthers i u st = (u', st')"
  shows "\<exists>xs. st' = st @ xs"
using assms
proof (cases rule: adjustOthers_cases)
  case same
  then show ?thesis by simp
next
  case mapped
  then show ?thesis by (intro js_map_grows)
qed

lemma adjustOthers_wf:
  assumes "wf_arr st u" and "adjustOthers i u st = (u', st')"
  shows "wf_arr st' u'"
using assms(2)
proof (cases rule: adjustOthers_cases)
  case same
  with assms(1) show ?thesis by simp
next
  case mapped
  from js_map_wf[OF assms(1) mapped(2)] show ?thesis .
qed

lemma adjustOthers_distinct:
  assumes "wf_arr st u" and "distinct u" and "adjustOthers i u st = (u', st')"
  shows "distinct u'"
using assms(3)
proof (cases rule: adjustOthers_cases)
  case same
  with assms(2) show ?thesis by simp
next
  case mapped
  from js_map_distinct[OF assms(1,2) mapped(2)] show ?thesis .
qed

lemma adjustOthers_length:
  assumes "adjustOthers i u st = (u', st')"
  shows "length u' = length u"
using assms
proof (cases rule: adjustOthers_cases)
  case same
  then show ?thesis by simp
next
  case mapped
  from js_map_length[OF mapped(2)] show ?thesis .
qed

lemma map_id_c_applied:
  "(\<And>c c'. f c = Some c' \<Longrightarrow> id_c c' = id_c c) \<Longrightarrow> map id_c (map (applied f) xs) = map id_c xs"
  by (induction xs) (auto simp: applied_def split: option.splits)

lemma adjustOthers_ids:
  assumes "wf_arr st u" and "adjustOthers i u st = (u', st')"
  shows "map id_c (deref st' u') = map id_c (deref st u)"
using assms(2)
proof (cases rule: adjustOthers_cases)
  case same
  then show ?thesis by simp
next
  case mapped
  from js_map_deref[OF assms(1) mapped(2)] show ?thesis
    by (simp only:) (rule map_id_c_applied, auto simp: adjustOne_def split: if_splits)
qed

text \<open>
  An object of the array after the proportional pass that was in the store before the
  pass and is not the edited one: the pass found the others' total to be zero.
\<close>

lemma adjustOthers_shared:
  assumes "adjustOthers i u st = (u', st')" and "b \<in> set u'" and "b < length st"
    and "id_c (st ! b) \<noteq> i" and "sum_percentage st u \<noteq> 100"
  shows "sum_percentage st (filter (\<lambda>a. id_c (st ! a) \<noteq> i) u) = 0"
using assms(1)
proof (cases rule: adjustOthers_cases)
  case same
  with assms have "filter (\<lambda>a. id_c (st ! a) \<noteq> i) u = []" and "b \<in> set u" by auto
  with assms(4) show ?thesis by (auto simp: filter_empty_conv)
next
  case mapped
  from js_map_shared[OF mapped(2) assms(2,3)] assms(4) show ?thesis
    by (simp add: adjustOne_def split: if_splits)
qed

lemma adjustmentCategory_in:
  "adjustmentCategory i u st = Some a \<Longrightarrow> a \<in> set u"
  by (auto simp: adjustmentCategory_def find_Some_iff split: option.splits list.splits)

lemma adjustmentCategory_other:
  "adjustmentCategory i u st = Some a \<Longrightarrow>
   id_c (st ! a) \<noteq> i \<or> (\<forall>b \<in> set u. id_c (st ! b) = i)"
  by (auto simp: adjustmentCategory_def find_Some_iff find_None_iff
      split: option.splits list.splits)

lemma adjustmentCategory_exists:
  "u \<noteq> [] \<Longrightarrow> \<exists>a. adjustmentCategory i u st = Some a"
  by (cases u) (auto simp: adjustmentCategory_def split: option.splits)

lemma residualCorrection_cases:
  obtains (same) "residualCorrection i u st = st"
      and "sum_percentage st u = 100 \<or> adjustmentCategory i u st = None"
    | (changed) a where "sum_percentage st u \<noteq> 100" and "adjustmentCategory i u st = Some a"
      and "residualCorrection i u st =
            st[a := (st ! a)\<lparr>percentage := percentage (st ! a) + (100 - sum_percentage st u)\<rparr>]"
  by (cases "adjustmentCategory i u st")
     (auto simp: residualCorrection_def Let_def split: option.splits)

lemma residualCorrection_length: "length (residualCorrection i u st) = length st"
  by (rule residualCorrection_cases[of i u st]) auto

lemma sum_percentage_Cons:
  "sum_percentage st (b # bs) = percentage (st ! b) + sum_percentage st bs"
  by (simp add: sum_percentage_def)

lemma sum_percentage_update_other:
  "a \<notin> set bs \<Longrightarrow> sum_percentage (st[a := c]) bs = sum_percentage st bs"
  by (induction bs) (auto simp: sum_percentage_def)

lemma sum_percentage_update:
  "distinct u \<Longrightarrow> a \<in> set u \<Longrightarrow> wf_arr st u \<Longrightarrow>
   sum_percentage (st[a := c]) u = sum_percentage st u - percentage (st ! a) + percentage c"
proof (induction u)
  case Nil
  then show ?case by simp
next
  case (Cons b bs)
  show ?case
  proof (cases "a = b")
    case True
    with Cons.prems have "a \<notin> set bs" and "a < length st" by (auto simp: wf_arr_def)
    with True sum_percentage_update_other[of a bs st c] show ?thesis
      by (simp add: sum_percentage_Cons)
  next
    case False
    with Cons.prems have "a \<in> set bs" "distinct bs" "wf_arr st bs"
      by (auto simp: wf_arr_def)
    from Cons.IH[OF this(2) this(1) this(3)] False show ?thesis
      by (simp add: sum_percentage_Cons)
  qed
qed

text \<open>The residual correction makes the total 100 whenever there is a category.\<close>

lemma residualCorrection_sum:
  assumes "wf_arr st u" and "distinct u" and "u \<noteq> []"
  shows "sum_percentage (residualCorrection i u st) u = 100"
proof (cases i u st rule: residualCorrection_cases)
  case same
  with adjustmentCategory_exists[OF assms(3), of i st] show ?thesis by auto
next
  case (changed a)
  from sum_percentage_update[OF assms(2) adjustmentCategory_in[OF changed(2)] assms(1)]
    changed(3)
  show ?thesis by simp
qed

lemma rebalance_split:
  assumes "rebalance i p arr st = (u, st')"
  obtains u1 st1 st2 where "assignPercentage i p arr st = (u1, st1)"
    and "adjustOthers i u1 st1 = (u, st2)" and "st' = residualCorrection i u st2"
  using assms by (auto simp: rebalance_def split: prod.splits)

lemma rebalance_sum:
  assumes "wf_arr st arr" and "distinct arr" and "arr \<noteq> []"
    and "rebalance i p arr st = (u, st')"
  shows "sum_percentage st' u = 100"
proof -
  from assms(4) obtain u1 st1 st2 where a: "assignPercentage i p arr st = (u1, st1)"
    and b: "adjustOthers i u1 st1 = (u, st2)" and st': "st' = residualCorrection i u st2"
    by (rule rebalance_split)
  have "wf_arr st2 u"
    using adjustOthers_wf[OF assignPercentage_wf[OF assms(1) a] b] .
  moreover have "distinct u"
    using adjustOthers_distinct[OF assignPercentage_wf[OF assms(1) a]
        assignPercentage_distinct[OF assms(1,2) a] b] .
  moreover have "u \<noteq> []"
    using adjustOthers_length[OF b] assignPercentage_length[OF a] assms(3) by auto
  ultimately show ?thesis
    unfolding st' by (rule residualCorrection_sum)
qed


subsection \<open>Which objects the residual correction can reach\<close>

lemma adjustOthers_100:
  "sum_percentage st u = 100 \<Longrightarrow> adjustOthers i u st = (u, st)"
  by (simp add: adjustOthers_def)

lemma filter_others_assigned:
  "filter (\<lambda>c. id_c c \<noteq> i) (map (\<lambda>c. if id_c c = i then c\<lparr>percentage := p\<rparr> else c) xs)
   = filter (\<lambda>c. id_c c \<noteq> i) xs"
  by (induction xs) auto

lemma map_id_c_assigned:
  "map id_c (map (\<lambda>c. if id_c c = i then c\<lparr>percentage := p\<rparr> else c) xs) = map id_c xs"
  by (induction xs) auto

lemma rebalance_length:
  assumes "rebalance i p arr st = (u, st')"
  shows "length st \<le> length st'"
proof -
  from assms obtain u1 st1 st2 where a: "assignPercentage i p arr st = (u1, st1)"
    and b: "adjustOthers i u1 st1 = (u, st2)" and st': "st' = residualCorrection i u st2"
    by (rule rebalance_split)
  from assignPercentage_grows[OF a] adjustOthers_grows[OF b] show ?thesis
    by (auto simp: st' residualCorrection_length)
qed

text \<open>
  When the other categories do not add up to zero, every object that was in the store
  before the call is the same after lines 103 to 149: the proportional pass has then
  replaced the other categories by new objects, and the residual goes to one of those.
\<close>

lemma rebalance_old:
  assumes wf: "wf_arr st arr" and r: "rebalance i p arr st = (u, st')"
    and nz: "sum_list (map percentage (filter (\<lambda>c. id_c c \<noteq> i) (deref st arr))) \<noteq> 0"
    and a: "a < length st"
  shows "st' ! a = st ! a"
proof -
  from r obtain u1 st1 st2 where as: "assignPercentage i p arr st = (u1, st1)"
    and ad: "adjustOthers i u1 st1 = (u, st2)" and st': "st' = residualCorrection i u st2"
    by (rule rebalance_split)
  from assignPercentage_grows[OF as] obtain xs1 where st1: "st1 = st @ xs1" by blast
  from adjustOthers_grows[OF ad] obtain xs2 where st2: "st2 = st1 @ xs2" by blast
  have wf1: "wf_arr st1 u1" by (rule assignPercentage_wf[OF wf as])
  have a1: "a < length st1" using a st1 by simp
  have old1: "st1 ! a = st ! a" using a st1 by (simp add: nth_append)
  have old2: "st2 ! a = st ! a" using a a1 st1 st2 by (simp add: nth_append)
  have d1: "deref st1 u1 = map (\<lambda>c. if id_c c = i then c\<lparr>percentage := p\<rparr> else c) (deref st arr)"
    by (rule assignPercentage_deref[OF wf as])
  have others1: "sum_percentage st1 (filter (\<lambda>b. id_c (st1 ! b) \<noteq> i) u1) \<noteq> 0"
    using nz filter_deref[of st1 "\<lambda>c. id_c c \<noteq> i" u1]
    by (simp add: sum_percentage_deref d1 filter_others_assigned)
  have ids: "map id_c (deref st2 u) = map id_c (deref st arr)"
    using adjustOthers_ids[OF wf1 ad] by (simp add: d1 map_id_c_assigned)
  show ?thesis
  proof (cases i u st2 rule: residualCorrection_cases)
    case same
    with st' old2 show ?thesis by simp
  next
    case (changed b)
    have "b \<noteq> a"
    proof
      assume ba: "b = a"
      from adjustmentCategory_in[OF changed(2)] ba have au: "a \<in> set u" by simp
      from adjustmentCategory_other[OF changed(2)]
      show False
      proof
        assume "id_c (st2 ! b) \<noteq> i"
        with ba old2 old1 have ne: "id_c (st1 ! a) \<noteq> i" by simp
        have "sum_percentage st1 u1 \<noteq> 100"
        proof
          assume h: "sum_percentage st1 u1 = 100"
          from adjustOthers_100[OF h, of i] ad changed(1) h show False by simp
        qed
        from adjustOthers_shared[OF ad au a1 ne this] others1 show False by simp
      next
        assume "\<forall>b \<in> set u. id_c (st2 ! b) = i"
        then have "\<forall>x \<in> set (map id_c (deref st2 u)). x = i"
          by (simp add: deref_def)
        with ids have "\<forall>c \<in> set (deref st arr). id_c c = i" by simp
        then have "filter (\<lambda>c. id_c c \<noteq> i) (deref st arr) = []"
          by (simp add: filter_empty_conv)
        with nz show False by simp
      qed
    qed
    with changed(3) st' old2 show ?thesis by simp
  qed
qed

subsection \<open>The next render\<close>

lemma updateCategoryAmounts_view:
  assumes "wf_arr st (categories s)"
  shows "view (updateCategoryAmounts s b (st, nxt))
         = map (\<lambda>c. c\<lparr>amount := amountOf (percentage c) b\<rparr>) (deref st (categories s))"
    and "wf_arr (fst (updateCategoryAmounts s b (st, nxt)))
           (categories (snd (updateCategoryAmounts s b (st, nxt))))"
    and "distinct (categories s) \<Longrightarrow>
         distinct (categories (snd (updateCategoryAmounts s b (st, nxt))))"
proof -
  obtain u st' where m:
    "js_map (\<lambda>category. Some (category\<lparr>amount := amountOf (percentage category) b\<rparr>))
       (categories s) st = (u, st')"
    by fastforce
  then have res: "updateCategoryAmounts s b (st, nxt) = (st', nxt\<lparr>categories := u\<rparr>)"
    by (simp add: updateCategoryAmounts_def)
  have ap: "applied (\<lambda>category. Some (category\<lparr>amount := amountOf (percentage category) b\<rparr>))
            = (\<lambda>c. c\<lparr>amount := amountOf (percentage c) b\<rparr>)"
    by (rule ext) (simp add: applied_def)
  show "view (updateCategoryAmounts s b (st, nxt))
         = map (\<lambda>c. c\<lparr>amount := amountOf (percentage c) b\<rparr>) (deref st (categories s))"
    using js_map_deref[OF assms m] by (simp add: res view_def ap)
  show "wf_arr (fst (updateCategoryAmounts s b (st, nxt)))
           (categories (snd (updateCategoryAmounts s b (st, nxt))))"
    using js_map_wf[OF assms m] by (simp add: res)
  show "distinct (categories s) \<Longrightarrow>
         distinct (categories (snd (updateCategoryAmounts s b (st, nxt))))"
    using js_map_distinct[OF assms _ m] by (simp add: res)
qed

lemma handleBudgetChange_view:
  assumes "wf_arr (fst w) (categories (snd w))"
  shows "view (handleBudgetChange parsed w)
         = map (\<lambda>c. c\<lparr>amount := amountOf (percentage c)
                                   (case parsed of None \<Rightarrow> 0 | Some n \<Rightarrow> n)\<rparr>) (view w)"
    and "wf_arr (fst (handleBudgetChange parsed w)) (categories (snd (handleBudgetChange parsed w)))"
    and "distinct (categories (snd w)) \<Longrightarrow>
         distinct (categories (snd (handleBudgetChange parsed w)))"
  using updateCategoryAmounts_view[of "fst w" "snd w", OF assms]
  by (cases w; simp add: handleBudgetChange_def Let_def view_def)+

text \<open>
  The next render after \<open>handlePercentageChange\<close> shows the categories of the current
  render, read after lines 103 to 149 have run, with their amounts computed again.
\<close>

lemma handlePercentageChange_view:
  assumes "wf_arr st (categories s)" and "rebalance i p (categories s) st = (u, st')"
  shows "view (handlePercentageChange i p (st, s))
         = map (\<lambda>c. c\<lparr>amount := amountOf (percentage c) (totalBudget s)\<rparr>)
             (deref st' (categories s))"
    and "wf_arr (fst (handlePercentageChange i p (st, s)))
           (categories (snd (handlePercentageChange i p (st, s))))"
    and "distinct (categories s) \<Longrightarrow>
         distinct (categories (snd (handlePercentageChange i p (st, s))))"
proof -
  have wf': "wf_arr st' (categories s)"
    using assms(1) rebalance_length[OF assms(2)] by (auto simp: wf_arr_def list_all_iff)
  have h: "handlePercentageChange i p (st, s)
           = updateCategoryAmounts s (totalBudget s) (st', s\<lparr>categories := u\<rparr>)"
    using assms(2) by (simp add: handlePercentageChange_def)
  show "view (handlePercentageChange i p (st, s))
         = map (\<lambda>c. c\<lparr>amount := amountOf (percentage c) (totalBudget s)\<rparr>)
             (deref st' (categories s))"
    unfolding h by (rule updateCategoryAmounts_view(1)[OF wf'])
  show "wf_arr (fst (handlePercentageChange i p (st, s)))
           (categories (snd (handlePercentageChange i p (st, s))))"
    unfolding h by (rule updateCategoryAmounts_view(2)[OF wf'])
  show "distinct (categories s) \<Longrightarrow>
         distinct (categories (snd (handlePercentageChange i p (st, s))))"
    unfolding h by (rule updateCategoryAmounts_view(3)[OF wf'])
qed

lemma handlePercentageChange_keeps:
  assumes wf: "wf_arr (fst w) (categories (snd w))"
    and nz: "sum_list (map percentage (filter (\<lambda>c. id_c c \<noteq> i) (view w))) \<noteq> 0"
  shows "view (handlePercentageChange i p w)
         = map (\<lambda>c. c\<lparr>amount := amountOf (percentage c) (totalBudget (snd w))\<rparr>) (view w)"
proof -
  obtain st s where w: "w = (st, s)" by (cases w)
  obtain u st' where r: "rebalance i p (categories s) st = (u, st')" by fastforce
  from wf w have wf0: "wf_arr st (categories s)" by simp
  from nz w have nz0:
    "sum_list (map percentage (filter (\<lambda>c. id_c c \<noteq> i) (deref st (categories s)))) \<noteq> 0"
    by (simp add: view_def)
  have "deref st' (categories s) = deref st (categories s)"
    unfolding deref_def
  proof (rule map_cong[OF refl])
    fix a assume "a \<in> set (categories s)"
    with wf0 have "a < length st" by (simp add: wf_arr_def list_all_iff)
    from rebalance_old[OF wf0 r nz0 this] show "st' ! a = st ! a" .
  qed
  with handlePercentageChange_view(1)[OF wf0 r] show ?thesis
    by (simp add: w view_def)
qed


subsection \<open>The reachable renders\<close>

lemma priced_percentages: "map percentage (priced b) = [35, 25, 15, 15, 5, 5]"
  by (simp add: priced_def seed_store_def)

lemma priced_again:
  "map (\<lambda>c. c\<lparr>amount := amountOf (percentage c) b'\<rparr>) (priced b) = priced b'"
  by (simp add: priced_def seed_store_def)

lemma priced_others:
  "sum_list (map percentage (filter (\<lambda>c. id_c c \<noteq> i) (priced b))) \<noteq> 0"
  by (auto simp: priced_def seed_store_def)

lemma seeded_seed: "seeded seed"
  by (simp add: seeded_def seed_def view_def deref_def wf_arr_def priced_def seed_store_def
      amountOf_zero)

lemma seeded_handleBudgetChange:
  assumes "seeded w"
  shows "seeded (handleBudgetChange parsed w)"
proof -
  from assms have wf: "wf_arr (fst w) (categories (snd w))"
    and d: "distinct (categories (snd w))"
    and v: "view w = priced (totalBudget (snd w))" and n: "duration (snd w) \<noteq> 0"
    by (simp_all add: seeded_def)
  show ?thesis
    unfolding seeded_def
    using handleBudgetChange_view[OF wf, of parsed] d n
    by (simp add: v priced_again handleBudgetChange_frame)
qed

lemma seeded_handlePercentageChange:
  assumes "seeded w"
  shows "seeded (handlePercentageChange i p w)"
proof -
  from assms have wf: "wf_arr (fst w) (categories (snd w))"
    and d: "distinct (categories (snd w))"
    and v: "view w = priced (totalBudget (snd w))" and n: "duration (snd w) \<noteq> 0"
    by (simp_all add: seeded_def)
  obtain st s where w: "w = (st, s)" by (cases w)
  obtain u st' where r: "rebalance i p (categories s) st = (u, st')" by fastforce
  have nz: "sum_list (map percentage (filter (\<lambda>c. id_c c \<noteq> i) (view w))) \<noteq> 0"
    by (simp add: v priced_others)
  have "view (handlePercentageChange i p w) = priced (totalBudget (snd w))"
    using handlePercentageChange_keeps[OF wf nz, of p] by (simp add: v priced_again)
  moreover have "wf_arr (fst (handlePercentageChange i p w))
                   (categories (snd (handlePercentageChange i p w)))"
    using handlePercentageChange_view(2)[OF _ r] wf w by simp
  moreover have "distinct (categories (snd (handlePercentageChange i p w)))"
    using handlePercentageChange_view(3)[OF _ r] wf d w by simp
  ultimately show ?thesis
    using n by (simp add: seeded_def handlePercentageChange_frame)
qed

lemma seeded_handleAmountChange:
  assumes "seeded w"
  shows "seeded (handleAmountChange i a w)"
proof (cases "totalBudget (snd w) \<le> 0")
  case True
  then have "handleAmountChange i a w = w"
    by (cases w) (simp add: handleAmountChange_def)
  with assms show ?thesis by simp
next
  case False
  then have "handleAmountChange i a w =
      handlePercentageChange i (percentageOf a (totalBudget (snd w))) w"
    by (cases w) (simp add: handleAmountChange_def Let_def)
  with seeded_handlePercentageChange[OF assms] show ?thesis by simp
qed

lemma seeded_handleDurationChange:
  "seeded w \<Longrightarrow> seeded (handleDurationChange parsed w)"
  by (cases w) (auto simp: seeded_def handleDurationChange_def Let_def view_def
      split: option.splits)

lemma seeded_handleCurrencyChange:
  "seeded w \<Longrightarrow> seeded (handleCurrencyChange c w)"
  by (cases w) (auto simp: seeded_def handleCurrencyChange_def view_def)

lemma seeded_dispatch: "seeded w \<Longrightarrow> seeded (dispatch e w)"
  by (cases e)
     (simp_all add: seeded_handleBudgetChange seeded_handlePercentageChange
        seeded_handleAmountChange seeded_handleDurationChange seeded_handleCurrencyChange)

lemma seeded_run: "seeded w \<Longrightarrow> seeded (run evs w)"
  unfolding run_def by (induction evs arbitrary: w) (simp_all add: seeded_dispatch)

lemma reachable_view: "view (run evs seed) = priced (totalBudget (snd (run evs seed)))"
  using seeded_run[OF seeded_seed, of evs] by (simp add: seeded_def)

lemma reachable_wf:
  "wf_arr (fst (run evs seed)) (categories (snd (run evs seed)))"
  "distinct (categories (snd (run evs seed)))"
  "categories (snd (run evs seed)) \<noteq> []"
proof -
  have s: "seeded (run evs seed)" by (rule seeded_run[OF seeded_seed])
  then show "wf_arr (fst (run evs seed)) (categories (snd (run evs seed)))"
    and "distinct (categories (snd (run evs seed)))"
    by (simp_all add: seeded_def)
  from s have "map (\<lambda>a. fst (run evs seed) ! a) (categories (snd (run evs seed)))
               = priced (totalBudget (snd (run evs seed)))"
    by (simp add: seeded_def view_def deref_def)
  then show "categories (snd (run evs seed)) \<noteq> []"
    by (auto simp: priced_def seed_store_def)
qed

lemma reachable_rebalanced_sum:
  "sum_list (map percentage (rebalanced i p (run evs seed))) = 100"
proof -
  obtain u st' where r:
    "rebalance i p (categories (snd (run evs seed))) (fst (run evs seed)) = (u, st')"
    by fastforce
  from rebalance_sum[OF reachable_wf r] show ?thesis
    by (simp add: rebalanced_def r sum_percentage_deref)
qed


subsection \<open>Lines 110 to 149 on the list of objects\<close>

lemma applied_adjustOne_edited:
  "filter (\<lambda>c. id_c c \<noteq> i) vs = [] \<Longrightarrow> map (applied (adjustOne i a t)) vs = vs"
  by (induction vs) (auto simp: applied_def adjustOne_def split: if_splits)

lemma proportional_val:
  assumes "wf_arr (fst w) (categories (snd w))"
  shows "proportional i p w = proportional_val i p (view w)"
proof -
  obtain u1 st1 where a: "assignPercentage i p (categories (snd w)) (fst w) = (u1, st1)"
    by fastforce
  obtain u2 st2 where b: "adjustOthers i u1 st1 = (u2, st2)" by fastforce
  let ?v1 = "map (\<lambda>c. if id_c c = i then c\<lparr>percentage := p\<rparr> else c) (view w)"
  have d1: "deref st1 u1 = ?v1"
    using assignPercentage_deref[OF assms a] by (simp add: view_def)
  have total: "sum_percentage st1 u1 = sum_list (map percentage ?v1)"
    by (simp only: sum_percentage_deref d1)
  have others: "deref st1 (filter (\<lambda>a. id_c (st1 ! a) \<noteq> i) u1) = filter (\<lambda>c. id_c c \<noteq> i) ?v1"
    using filter_deref[of st1 "\<lambda>c. id_c c \<noteq> i" u1] by (simp only: d1)
  have empty: "filter (\<lambda>a. id_c (st1 ! a) \<noteq> i) u1 = [] \<longleftrightarrow> filter (\<lambda>c. id_c c \<noteq> i) ?v1 = []"
    using others by (auto simp: deref_def)
  have p: "proportional i p w = deref st2 u2"
    by (simp add: proportional_def a b)
  from b show ?thesis
  proof (cases rule: adjustOthers_cases)
    case same
    then have "sum_list (map percentage ?v1) = 100 \<or> filter (\<lambda>c. id_c c \<noteq> i) ?v1 = []"
      using total empty by simp
    then have "proportional_val i p (view w) = ?v1"
      by (auto simp: proportional_val_def Let_def)
    with same p d1 show ?thesis by simp
  next
    case mapped
    have "deref st2 u2
          = map (applied (adjustOne i (100 - sum_percentage st1 u1)
                   (sum_percentage st1 (filter (\<lambda>a. id_c (st1 ! a) \<noteq> i) u1)))) (deref st1 u1)"
      by (rule js_map_deref[OF assignPercentage_wf[OF assms a] mapped(2)])
    moreover have "sum_percentage st1 (filter (\<lambda>a. id_c (st1 ! a) \<noteq> i) u1)
          = sum_list (map percentage (filter (\<lambda>c. id_c c \<noteq> i) ?v1))"
      by (simp only: sum_percentage_deref others)
    moreover have "sum_list (map percentage ?v1) \<noteq> 100" and "filter (\<lambda>c. id_c c \<noteq> i) ?v1 \<noteq> []"
      using mapped(1,3) total empty by simp_all
    ultimately show ?thesis
      by (simp add: p proportional_val_def Let_def total d1)
  qed
qed

lemma deref_update_other:
  "a \<notin> set u \<Longrightarrow> deref (st[a := x]) u = deref st u"
  by (induction u) (auto simp: deref_def)

lemma find_bump_None:
  "find (\<lambda>a. Q (st ! a)) u = None \<Longrightarrow> bump_first Q d (deref st u) = None"
  by (induction u) (auto simp: deref_def split: if_splits)

lemma find_bump_Some:
  assumes "distinct u" and "wf_arr st u" and "find (\<lambda>a. Q (st ! a)) u = Some a"
  shows "bump_first Q d (deref st u)
         = Some (deref (st[a := (st ! a)\<lparr>percentage := percentage (st ! a) + d\<rparr>]) u)"
  using assms
proof (induction u)
  case Nil
  then show ?case by simp
next
  case (Cons b bs)
  from Cons.prems have b: "b < length st" and nb: "b \<notin> set bs"
    and dbs: "distinct bs" and wbs: "wf_arr st bs"
    by (simp_all add: wf_arr_def)
  show ?case
  proof (cases "Q (st ! b)")
    case True
    with Cons.prems(3) have ab: "a = b" by simp
    have "deref (st[b := (st ! b)\<lparr>percentage := percentage (st ! b) + d\<rparr>]) (b # bs)
          = (st ! b)\<lparr>percentage := percentage (st ! b) + d\<rparr> # deref st bs"
      using b deref_update_other[OF nb] by (simp add: deref_def)
    with True ab show ?thesis by (simp add: deref_def)
  next
    case False
    with Cons.prems(3) have f: "find (\<lambda>a. Q (st ! a)) bs = Some a" by simp
    then have "a \<in> set bs" by (auto simp: find_Some_iff)
    with nb have ne: "a \<noteq> b" by auto
    from Cons.IH[OF dbs wbs f] False ne show ?thesis
      by (simp add: deref_def)
  qed
qed

lemma residualCorrection_deref:
  assumes "wf_arr st u" and "distinct u"
  shows "deref (residualCorrection i u st) u = residual_val i (deref st u)"
proof (cases i u st rule: residualCorrection_cases)
  case same
  from same(2) show ?thesis
  proof
    assume "sum_percentage st u = 100"
    with same(1) show ?thesis
      by (simp add: residual_val_def sum_percentage_deref)
  next
    assume "adjustmentCategory i u st = None"
    with adjustmentCategory_exists[of u i st] have "u = []" by auto
    with same(1) show ?thesis
      by (simp add: residual_val_def deref_def)
  qed
next
  case (changed a)
  let ?d = "100 - sum_list (map percentage (deref st u))"
  let ?st = "st[a := (st ! a)\<lparr>percentage := percentage (st ! a) + ?d\<rparr>]"
  have final: "sum_list (map percentage (deref st u)) \<noteq> 100"
    using changed(1) by (simp add: sum_percentage_deref)
  have res: "residualCorrection i u st = ?st"
    using changed(3) by (simp add: sum_percentage_deref)
  show ?thesis
  proof (cases "find (\<lambda>a. id_c (st ! a) \<noteq> i) u")
    case (Some a')
    with changed(2) have "a' = a" by (simp add: adjustmentCategory_def)
    with Some have f: "find (\<lambda>a. id_c (st ! a) \<noteq> i) u = Some a" by simp
    have "bump_first (\<lambda>c. id_c c \<noteq> i) ?d (deref st u) = Some (deref ?st u)"
      by (rule find_bump_Some[OF assms(2,1) f])
    then show ?thesis
      using final by (simp add: residual_val_def Let_def res)
  next
    case None
    with changed(2) obtain bs where u: "u = a # bs"
      by (cases u) (auto simp: adjustmentCategory_def)
    from assms u have a: "a < length st" and na: "a \<notin> set bs"
      by (simp_all add: wf_arr_def)
    have bf: "bump_first (\<lambda>c. id_c c \<noteq> i) ?d (deref st u) = None"
      by (rule find_bump_None[OF None])
    have new: "deref ?st u
        = (st ! a)\<lparr>percentage := percentage (st ! a) + ?d\<rparr> # deref st bs"
      using a deref_update_other[OF na] by (simp add: u deref_def)
    have old: "deref st u = st ! a # deref st bs"
      by (simp add: u deref_def)
    have "residual_val i (deref st u)
        = (case deref st u of [] \<Rightarrow> []
           | c # cs \<Rightarrow> c\<lparr>percentage := percentage c + ?d\<rparr> # cs)"
      using final bf by (simp add: residual_val_def Let_def)
    also have "\<dots> = (st ! a)\<lparr>percentage := percentage (st ! a) + ?d\<rparr> # deref st bs"
      by (subst old) simp
    finally show ?thesis by (simp only: res new)
  qed
qed

text \<open>The array of line 151 is the value-level computation on the objects of the render.\<close>

lemma rebalanced_val:
  assumes "wf_arr (fst w) (categories (snd w))" and "distinct (categories (snd w))"
  shows "rebalanced i p w = residual_val i (proportional_val i p (view w))"
proof -
  obtain u1 st1 where a: "assignPercentage i p (categories (snd w)) (fst w) = (u1, st1)"
    by fastforce
  obtain u2 st2 where b: "adjustOthers i u1 st1 = (u2, st2)" by fastforce
  have wf1: "wf_arr st1 u1" by (rule assignPercentage_wf[OF assms(1) a])
  have wf2: "wf_arr st2 u2" by (rule adjustOthers_wf[OF wf1 b])
  have d2: "distinct u2"
    by (rule adjustOthers_distinct[OF wf1 assignPercentage_distinct[OF assms a] b])
  have "rebalanced i p w = deref (residualCorrection i u2 st2) u2"
    by (simp add: rebalanced_def rebalance_def a b)
  also have "\<dots> = residual_val i (deref st2 u2)"
    by (rule residualCorrection_deref[OF wf2 d2])
  also have "deref st2 u2 = proportional i p w"
    by (simp add: proportional_def a b)
  finally show ?thesis by (simp add: proportional_val[OF assms(1)])
qed

lemma reachable_rebalanced:
  "rebalanced i p (run evs seed)
   = residual_val i (proportional_val i p (priced (totalBudget (snd (run evs seed)))))"
  using rebalanced_val[OF reachable_wf(1,2), of i p evs] by (simp add: reachable_view)


subsection \<open>Requests between 0 and 100 from the seeded percentages\<close>

lemmas evaluate_val =
  residual_val_def proportional_val_def priced_def seed_store_def applied_def adjustOne_def
  Let_def

lemma adjusted_nonneg: "0 \<le> adjusted a t x"
  by (simp add: adjusted_def Let_def)

lemma rebalanced_1:
  "map percentage (residual_val ''1'' (proportional_val ''1'' p (priced b))) =
   (if p = 35 then [35, 25, 15, 15, 5, 5]
    else [p, 100 - p - 2 * adjusted (35 - p) 65 15 - 2 * adjusted (35 - p) 65 5,
          adjusted (35 - p) 65 15, adjusted (35 - p) 65 15,
          adjusted (35 - p) 65 5, adjusted (35 - p) 65 5])"
  by (auto simp: evaluate_val)

lemma rebalanced_2:
  "map percentage (residual_val ''2'' (proportional_val ''2'' p (priced b))) =
   (if p = 25 then [35, 25, 15, 15, 5, 5]
    else [100 - p - 2 * adjusted (25 - p) 75 15 - 2 * adjusted (25 - p) 75 5, p,
          adjusted (25 - p) 75 15, adjusted (25 - p) 75 15,
          adjusted (25 - p) 75 5, adjusted (25 - p) 75 5])"
  by (auto simp: evaluate_val)

lemma rebalanced_3:
  "map percentage (residual_val ''3'' (proportional_val ''3'' p (priced b))) =
   (if p = 15 then [35, 25, 15, 15, 5, 5]
    else [100 - p - adjusted (15 - p) 85 25 - adjusted (15 - p) 85 15
              - 2 * adjusted (15 - p) 85 5,
          adjusted (15 - p) 85 25, p, adjusted (15 - p) 85 15,
          adjusted (15 - p) 85 5, adjusted (15 - p) 85 5])"
  by (auto simp: evaluate_val)

lemma rebalanced_4:
  "map percentage (residual_val ''4'' (proportional_val ''4'' p (priced b))) =
   (if p = 15 then [35, 25, 15, 15, 5, 5]
    else [100 - p - adjusted (15 - p) 85 25 - adjusted (15 - p) 85 15
              - 2 * adjusted (15 - p) 85 5,
          adjusted (15 - p) 85 25, adjusted (15 - p) 85 15, p,
          adjusted (15 - p) 85 5, adjusted (15 - p) 85 5])"
  by (auto simp: evaluate_val)

lemma rebalanced_5:
  "map percentage (residual_val ''5'' (proportional_val ''5'' p (priced b))) =
   (if p = 5 then [35, 25, 15, 15, 5, 5]
    else [100 - p - adjusted (5 - p) 95 25 - 2 * adjusted (5 - p) 95 15
              - adjusted (5 - p) 95 5,
          adjusted (5 - p) 95 25, adjusted (5 - p) 95 15, adjusted (5 - p) 95 15,
          p, adjusted (5 - p) 95 5])"
  by (auto simp: evaluate_val)

lemma rebalanced_6:
  "map percentage (residual_val ''6'' (proportional_val ''6'' p (priced b))) =
   (if p = 5 then [35, 25, 15, 15, 5, 5]
    else [100 - p - adjusted (5 - p) 95 25 - 2 * adjusted (5 - p) 95 15
              - adjusted (5 - p) 95 5,
          adjusted (5 - p) 95 25, adjusted (5 - p) 95 15, adjusted (5 - p) 95 15,
          adjusted (5 - p) 95 5, p])"
  by (auto simp: evaluate_val)

lemma rebalanced_unknown:
  assumes "i \<notin> {''1'', ''2'', ''3'', ''4'', ''5'', ''6''}"
  shows "map percentage (residual_val i (proportional_val i p (priced b)))
         = [35, 25, 15, 15, 5, 5]"
proof -
  from assms have ne: "''1'' \<noteq> i" "''2'' \<noteq> i" "''3'' \<noteq> i" "''4'' \<noteq> i"
    "''5'' \<noteq> i" "''6'' \<noteq> i"
    by blast+
  have v1: "map (\<lambda>c. if id_c c = i then c\<lparr>percentage := p\<rparr> else c) (priced b) = priced b"
    using ne by (simp add: priced_def seed_store_def)
  have total: "sum_list (map percentage (priced b)) = 100"
    by (simp add: priced_percentages)
  have "proportional_val i p (priced b) = priced b"
    by (simp add: proportional_val_def Let_def v1 total)
  moreover have "residual_val i (priced b) = priced b"
    by (simp add: residual_val_def Let_def total)
  ultimately show ?thesis by (simp add: priced_percentages)
qed

text \<open>
  What is left for the category that takes the residual, for each request from 0 to 100.
\<close>

lemma rest_1:
  "list_all (\<lambda>p. p + 2 * adjusted (35 - p) 65 15 + 2 * adjusted (35 - p) 65 5 \<le> 100) [0..100]"
  by (simp add: upto.simps evaluate_double)

lemma rest_2:
  "list_all (\<lambda>p. p + 2 * adjusted (25 - p) 75 15 + 2 * adjusted (25 - p) 75 5 \<le> 100) [0..100]"
  by (simp add: upto.simps evaluate_double)

lemma rest_3:
  "list_all (\<lambda>p. p + adjusted (15 - p) 85 25 + adjusted (15 - p) 85 15
                   + 2 * adjusted (15 - p) 85 5 \<le> 100) [0..100]"
  by (simp add: upto.simps evaluate_double)

lemma rest_5:
  "list_all (\<lambda>p. p + adjusted (5 - p) 95 25 + 2 * adjusted (5 - p) 95 15
                   + adjusted (5 - p) 95 5 \<le> 100) [0..100]"
  by (simp add: upto.simps evaluate_double)

lemma in_range: "0 \<le> p \<Longrightarrow> p \<le> 100 \<Longrightarrow> p \<in> set [0..100]"
  by simp

lemma rebalanced_val_nonneg:
  assumes "0 \<le> p" and "p \<le> 100"
  shows "list_all (\<lambda>x. 0 \<le> x)
           (map percentage (residual_val i (proportional_val i p (priced b))))"
proof -
  have r: "p \<in> set [0..100]" using assms by (rule in_range)
  from rest_1 r have r1: "p + 2 * adjusted (35 - p) 65 15 + 2 * adjusted (35 - p) 65 5 \<le> 100"
    unfolding list_all_iff by blast
  from rest_2 r have r2: "p + 2 * adjusted (25 - p) 75 15 + 2 * adjusted (25 - p) 75 5 \<le> 100"
    unfolding list_all_iff by blast
  from rest_3 r have r3: "p + adjusted (15 - p) 85 25 + adjusted (15 - p) 85 15
                   + 2 * adjusted (15 - p) 85 5 \<le> 100"
    unfolding list_all_iff by blast
  from rest_5 r have r5: "p + adjusted (5 - p) 95 25 + 2 * adjusted (5 - p) 95 15
                   + adjusted (5 - p) 95 5 \<le> 100"
    unfolding list_all_iff by blast
  consider "i = ''1''" | "i = ''2''" | "i = ''3''" | "i = ''4''" | "i = ''5''" | "i = ''6''"
    | "i \<notin> {''1'', ''2'', ''3'', ''4'', ''5'', ''6''}"
    by blast
  then show ?thesis
  proof cases
    case 1
    with assms r1 show ?thesis by (simp add: rebalanced_1 adjusted_nonneg)
  next
    case 2
    with assms r2 show ?thesis by (simp add: rebalanced_2 adjusted_nonneg)
  next
    case 3
    with assms r3 show ?thesis by (simp add: rebalanced_3 adjusted_nonneg)
  next
    case 4
    with assms r3 show ?thesis by (simp add: rebalanced_4 adjusted_nonneg)
  next
    case 5
    with assms r5 show ?thesis by (simp add: rebalanced_5 adjusted_nonneg)
  next
    case 6
    with assms r5 show ?thesis by (simp add: rebalanced_6 adjusted_nonneg)
  next
    case 7
    then show ?thesis by (simp add: rebalanced_unknown)
  qed
qed

lemma reachable_rebalanced_nonneg:
  assumes "0 \<le> p" and "p \<le> 100"
  shows "list_all (\<lambda>c. 0 \<le> percentage c) (rebalanced i p (run evs seed))"
  using rebalanced_val_nonneg[OF assms, of i "totalBudget (snd (run evs seed))"]
  by (simp add: reachable_rebalanced list_all_iff)


subsection \<open>Scenario A: a budget of 1000, then Accommodation set to 50 percent\<close>

lemma budget_1000:
  "handleBudgetChange (Some 1000) seed =
     (seed_store @ priced 1000,
      \<lparr>totalBudget = 1000, duration = 7, currency = USD, categories = [6, 7, 8, 9, 10, 11]\<rparr>)"
  by (simp add: handleBudgetChange_def updateCategoryAmounts_def seed_def seed_store_def
      priced_def)

lemmas evaluate_rebalance =
  rebalanced_def proportional_def assigned_def rebalance_def assignPercentage_def
  adjustOthers_def adjustOne_def residualCorrection_def adjustmentCategory_def
  sum_percentage_def deref_def priced_def seed_store_def evaluate_double

section \<open>The claims\<close>

text \<open>
  C1. From the seeded categories, after every sequence of user events the percentages of
  the categories add up to exactly 100; so do the percentages of the array that lines 103
  to 149 compute for any category id and any requested percentage.
\<close>

theorem percentages_sum_100:
  "sum_list (percentages (run evs seed)) = 100
   \<and> sum_list (map percentage (rebalanced i p (run evs seed))) = 100"
  by (simp add: percentages_def reachable_view priced_percentages reachable_rebalanced_sum)

text \<open>
  C2, as stated, fails: with a budget of 1000 the amount 1500 typed for Accommodation is
  the percentage 150; the proportional pass leaves the other five categories at 0 and the
  residual correction then takes Food and Drinks below 0.
\<close>

theorem residual_negative_counterexample:
  "percentageOf 1500 1000 = 150
   \<and> map percentage (proportional ''1'' 150 (handleBudgetChange (Some 1000) seed))
       = [150, 0, 0, 0, 0, 0]
   \<and> map percentage (rebalanced ''1'' 150 (handleBudgetChange (Some 1000) seed))
       = [150, - 50, 0, 0, 0, 0]"
proof -
  have "percentageOf 1500 1000 = 150"
    by (simp add: evaluate_double)
  moreover have "map percentage (proportional ''1'' 150 (handleBudgetChange (Some 1000) seed))
       = [150, 0, 0, 0, 0, 0]"
    by (simp add: budget_1000 evaluate_rebalance)
  moreover have "map percentage (rebalanced ''1'' 150 (handleBudgetChange (Some 1000) seed))
       = [150, - 50, 0, 0, 0, 0]"
    by (simp add: budget_1000 evaluate_rebalance)
  ultimately show ?thesis by simp
qed

text \<open>
  C2, amended. After every sequence of user events no category of the component state has
  a negative percentage, and for a requested percentage from 0 to 100 no category of the
  array that lines 103 to 149 compute has a negative percentage: the residual correction
  does not take a category below 0 there.
\<close>

theorem percentages_nonnegative:
  "list_all (\<lambda>x. 0 \<le> x) (percentages (run evs seed))
   \<and> (0 \<le> p \<and> p \<le> 100 \<longrightarrow>
        list_all (\<lambda>c. 0 \<le> percentage c) (rebalanced i p (run evs seed)))"
  by (simp add: percentages_def reachable_view priced_percentages reachable_rebalanced_nonneg)

theorem percentages_nonnegative_witness:
  "(0::int) \<le> 50 \<and> (50::int) \<le> 100
   \<and> list_all (\<lambda>c. 0 \<le> percentage c)
        (rebalanced ''1'' 50 (run [SetTotalBudget (Some 1000)] seed))"
  using percentages_nonnegative[of "[SetTotalBudget (Some 1000)]" 50 "''1''"] by simp


text \<open>
  C4, as stated, fails: the requested percentage 150 is written into the edited category
  as it is, and so is -20.
\<close>

theorem assigned_unclamped_counterexample:
  "map percentage (assigned ''1'' 150 seed) = [150, 25, 15, 15, 5, 5]
   \<and> map percentage (assigned ''1'' (- 20) seed) = [- 20, 25, 15, 15, 5, 5]"
  by (simp add: seed_def evaluate_rebalance)

text \<open>
  C4, amended. \<open>handlePercentageChange\<close> does not clamp: after line 107 the edited
  category has exactly the requested percentage, whatever integer it is, and every other
  category has the percentage it had.
\<close>

theorem assigned_is_requested:
  "map percentage (assigned i p (run evs seed))
     = map (\<lambda>c. if id_c c = i then p else percentage c) (view (run evs seed))
   \<and> map id_c (assigned i p (run evs seed)) = map id_c (view (run evs seed))"
proof -
  let ?w = "run evs seed"
  obtain u1 st1 where a: "assignPercentage i p (categories (snd ?w)) (fst ?w) = (u1, st1)"
    by fastforce
  have "assigned i p ?w
        = map (\<lambda>c. if id_c c = i then c\<lparr>percentage := p\<rparr> else c) (view ?w)"
    using assignPercentage_deref[OF reachable_wf(1) a] by (simp add: assigned_def a view_def)
  then show ?thesis by (simp add: comp_def if_distrib cong: if_cong)
qed

text \<open>
  C5 on the code: with a budget of 1000, \<open>handlePercentageChange\<close> for Accommodation
  and 50 computes the array 50, 18, 12, 12, 4, 4 (19 for Food and Drinks before the
  residual correction), but the next render has the percentages 35, 25, 15, 15, 5, 5.
\<close>

theorem scenario_A_next_render:
  "map percentage (proportional ''1'' 50 (handleBudgetChange (Some 1000) seed))
     = [50, 19, 12, 12, 4, 4]
   \<and> map percentage (rebalanced ''1'' 50 (handleBudgetChange (Some 1000) seed))
     = [50, 18, 12, 12, 4, 4]
   \<and> percentages (handlePercentageChange ''1'' 50 (handleBudgetChange (Some 1000) seed))
     = [35, 25, 15, 15, 5, 5]
   \<and> map amount (view (handlePercentageChange ''1'' 50 (handleBudgetChange (Some 1000) seed)))
     = [350, 250, 150, 150, 50, 50]"
proof -
  let ?w = "handlePercentageChange ''1'' 50 (handleBudgetChange (Some 1000) seed)"
  have w: "?w = run [SetTotalBudget (Some 1000), SetCategoryPercentage ''1'' 50] seed"
    by (simp add: run_def)
  have "totalBudget (snd ?w) = 1000"
    by (simp add: handlePercentageChange_frame handleBudgetChange_frame)
  with reachable_view[of "[SetTotalBudget (Some 1000), SetCategoryPercentage ''1'' 50]"]
  have v: "view ?w = priced 1000" by (simp add: w)
  have "map percentage (proportional ''1'' 50 (handleBudgetChange (Some 1000) seed))
     = [50, 19, 12, 12, 4, 4]"
    by (simp add: budget_1000 evaluate_rebalance)
  moreover have "map percentage (rebalanced ''1'' 50 (handleBudgetChange (Some 1000) seed))
     = [50, 18, 12, 12, 4, 4]"
    by (simp add: budget_1000 evaluate_rebalance)
  moreover have "percentages ?w = [35, 25, 15, 15, 5, 5]"
    by (simp add: percentages_def v priced_percentages)
  moreover have "map amount (view ?w) = [350, 250, 150, 150, 50, 50]"
    by (simp add: v priced_def seed_store_def evaluate_double)
  ultimately show ?thesis by simp
qed

text \<open>
  C6, as stated, fails: a negative budget is stored as it is and gives negative amounts.
\<close>

theorem negative_budget_counterexample:
  "totalBudget (snd (handleBudgetChange (Some (- 100)) seed)) = - 100
   \<and> map amount (view (handleBudgetChange (Some (- 100)) seed)) = [- 35, - 25, - 15, - 15, - 5, - 5]"
proof -
  have w: "handleBudgetChange (Some (- 100)) seed = run [SetTotalBudget (Some (- 100))] seed"
    by (simp add: run_def)
  have "totalBudget (snd (handleBudgetChange (Some (- 100)) seed)) = - 100"
    by (simp add: handleBudgetChange_frame)
  with reachable_view[of "[SetTotalBudget (Some (- 100))]"]
  have "view (handleBudgetChange (Some (- 100)) seed) = priced (- 100)"
    by (simp add: w)
  then have "map amount (view (handleBudgetChange (Some (- 100)) seed))
      = [- 35, - 25, - 15, - 15, - 5, - 5]"
    by (simp add: priced_def seed_store_def evaluate_double)
  then show ?thesis
    by (simp add: handleBudgetChange_frame)
qed

text \<open>
  C6, amended. \<open>handleBudgetChange\<close> stores the parsed value (0 when the input does
  not parse), leaves every percentage as it is and sets every amount to
  \<open>Math.round((percentage / 100) * value)\<close>, the quotient and the product being doubles
  as on line 72 (a budget of 90 gives 31, 23, 14, 14, 5 and 5); a budget of zero gives an
  amount of zero for every category.
\<close>

theorem handleBudgetChange_effect:
  "totalBudget (snd (handleBudgetChange parsed (run evs seed)))
     = (case parsed of None \<Rightarrow> 0 | Some n \<Rightarrow> n)
   \<and> percentages (handleBudgetChange parsed (run evs seed)) = percentages (run evs seed)
   \<and> map amount (view (handleBudgetChange parsed (run evs seed)))
     = map (\<lambda>c. js_round (to_double (to_double (of_int (percentage c) / 100)
                              * of_int (case parsed of None \<Rightarrow> 0 | Some n \<Rightarrow> n))))
         (view (run evs seed))
   \<and> map amount (view (handleBudgetChange None (run evs seed))) = [0, 0, 0, 0, 0, 0]
   \<and> map amount (view (handleBudgetChange (Some 0) (run evs seed))) = [0, 0, 0, 0, 0, 0]
   \<and> map amount (view (handleBudgetChange (Some 90) (run evs seed))) = [31, 23, 14, 14, 5, 5]"
proof -
  have v: "\<And>q. view (handleBudgetChange q (run evs seed))
      = map (\<lambda>c. c\<lparr>amount := amountOf (percentage c) (case q of None \<Rightarrow> 0 | Some n \<Rightarrow> n)\<rparr>)
          (view (run evs seed))"
    by (rule handleBudgetChange_view(1)[OF reachable_wf(1)])
  have "percentages (handleBudgetChange parsed (run evs seed)) = percentages (run evs seed)"
    by (simp add: percentages_def v comp_def)
  moreover have "map amount (view (handleBudgetChange parsed (run evs seed)))
     = map (\<lambda>c. js_round (to_double (to_double (of_int (percentage c) / 100)
                              * of_int (case parsed of None \<Rightarrow> 0 | Some n \<Rightarrow> n))))
         (view (run evs seed))"
    by (simp add: v comp_def amountOf_def)
  moreover have "map amount (view (handleBudgetChange None (run evs seed))) = [0, 0, 0, 0, 0, 0]"
    by (simp add: v reachable_view priced_def seed_store_def amountOf_zero)
  moreover have "map amount (view (handleBudgetChange (Some 0) (run evs seed))) = [0, 0, 0, 0, 0, 0]"
    by (simp add: v reachable_view priced_def seed_store_def amountOf_zero)
  moreover have "map amount (view (handleBudgetChange (Some 90) (run evs seed)))
      = map (\<lambda>p. amountOf p 90) [35, 25, 15, 15, 5, 5]"
    by (simp add: v reachable_view priced_def seed_store_def)
  then have "map amount (view (handleBudgetChange (Some 90) (run evs seed)))
      = [31, 23, 14, 14, 5, 5]"
    by (simp add: evaluate_double)
  ultimately show ?thesis by (simp add: handleBudgetChange_frame)
qed





text \<open>
  C9. The indicator depends only on the per-day amount in USD and on the category name:
  below the low threshold of the category it reads Budget, above the high threshold
  Luxury, and Standard otherwise; the thresholds are 50/150 for Accommodation, 30/100 for
  Food and Drinks, 10/50 for Transportation, 20/80 for Activities and 15/50 for every
  other name. For Accommodation, 40 a day is Budget, 100 a day Standard, 200 a day Luxury.
\<close>

theorem getBudgetLevelIndicator_tiers:
  assumes "duration s \<noteq> 0"
    and "category \<notin> {''Accommodation'', ''Food & Drinks'', ''Transportation'', ''Activities''}"
  shows "(let perDayUSD = (if currency s = INR then of_int amt / exchangeRates_INR
                           else of_int amt) / of_int (duration s)
          in (\<forall>c. text_c (getBudgetLevelIndicator s amt c) =
               (if perDayUSD < low (thresholdsOf c) then ''Budget''
                else if high (thresholdsOf c) < perDayUSD then ''Luxury''
                else ''Standard'')))
       \<and> thresholdsOf ''Accommodation'' = \<lparr>low = 50, high = 150\<rparr>
       \<and> thresholdsOf ''Food & Drinks'' = \<lparr>low = 30, high = 100\<rparr>
       \<and> thresholdsOf ''Transportation'' = \<lparr>low = 10, high = 50\<rparr>
       \<and> thresholdsOf ''Activities'' = \<lparr>low = 20, high = 80\<rparr>
       \<and> thresholdsOf category = \<lparr>low = 15, high = 50\<rparr>
       \<and> text_c (getBudgetLevelIndicator (s\<lparr>currency := USD, duration := 1\<rparr>) 40 ''Accommodation'')
           = ''Budget''
       \<and> text_c (getBudgetLevelIndicator (s\<lparr>currency := USD, duration := 1\<rparr>) 100 ''Accommodation'')
           = ''Standard''
       \<and> text_c (getBudgetLevelIndicator (s\<lparr>currency := USD, duration := 1\<rparr>) 200 ''Accommodation'')
           = ''Luxury''"
proof -
  have tiers: "\<And>c. text_c (getBudgetLevelIndicator s amt c) =
      (let perDayUSD = (if currency s = INR then of_int amt / exchangeRates_INR
                        else of_int amt) / of_int (duration s)
       in if perDayUSD < low (thresholdsOf c) then ''Budget''
          else if high (thresholdsOf c) < perDayUSD then ''Luxury'' else ''Standard'')"
    using assms(1) by (simp add: getBudgetLevelIndicator_def dailyAmount_def js_div_def Let_def)
  have dflt: "thresholdsOf category = \<lparr>low = 15, high = 50\<rparr>"
    using assms(2) by (simp add: thresholdsOf_def)
  have ex: "text_c (getBudgetLevelIndicator (s\<lparr>currency := USD, duration := 1\<rparr>) 40 ''Accommodation'') = ''Budget''"
    "text_c (getBudgetLevelIndicator (s\<lparr>currency := USD, duration := 1\<rparr>) 100 ''Accommodation'') = ''Standard''"
    "text_c (getBudgetLevelIndicator (s\<lparr>currency := USD, duration := 1\<rparr>) 200 ''Accommodation'') = ''Luxury''"
    by (simp_all add: getBudgetLevelIndicator_def dailyAmount_def js_div_def thresholdsOf_def)
  show ?thesis
    using tiers dflt ex by (simp add: thresholdsOf_def Let_def)
qed

theorem getBudgetLevelIndicator_tiers_witness:
  "text_c (getBudgetLevelIndicator
       \<lparr>totalBudget = 2000, duration = 7, currency = USD, categories = []\<rparr> 280 ''Accommodation'')
     = ''Budget''
   \<and> text_c (getBudgetLevelIndicator
       \<lparr>totalBudget = 2000, duration = 7, currency = USD, categories = []\<rparr> 280 ''Shopping'')
     = ''Standard''
   \<and> thresholdsOf ''Shopping'' = \<lparr>low = 15, high = 50\<rparr>"
proof -
  have d: "duration \<lparr>totalBudget = 2000, duration = 7, currency = USD, categories = []\<rparr> \<noteq> 0"
    by simp
  have n: "''Shopping'' \<notin> {''Accommodation'', ''Food & Drinks'', ''Transportation'', ''Activities''}"
    by simp
  show ?thesis
    using getBudgetLevelIndicator_tiers[OF d n, of 280] by (simp add: Let_def)
qed

text \<open>
  C10. Whatever the activities budget, the duration and the currency (also with a zero
  budget, a zero duration or no Activities category), the affordable price level is 1, 2
  or 3, so a fetched place with price level 0, 1 or none and a sample place with price
  level 0 or 1 pass the filter.
\<close>

theorem affordablePriceLevel_range:
  "affordablePriceLevel w \<in> {1, 2, 3}
   \<and> fetchedPlaceKept (affordablePriceLevel w) None
   \<and> fetchedPlaceKept (affordablePriceLevel w) (Some 0)
   \<and> fetchedPlaceKept (affordablePriceLevel w) (Some 1)
   \<and> samplePlaceKept (affordablePriceLevel w) (Some 0)
   \<and> samplePlaceKept (affordablePriceLevel w) (Some 1)"
proof -
  have "affordablePriceLevel w = 1 \<or> affordablePriceLevel w = 2 \<or> affordablePriceLevel w = 3"
    by (simp add: affordablePriceLevel_def Let_def)
  then show ?thesis
    by (auto simp: fetchedPlaceKept_def samplePlaceKept_def)
qed




end
